theory Spec2Isabelle
  imports Main "HOL-Library.AList" "HOL-Library.Multiset"
begin

section \<open>The game-state engine of dutch.cards (server/src/composables/use-game-state.js)\<close>

text \<open>
  The module keeps one reactive \<open>gameState\<close> object and exports one operation,
  \<open>executeCommand\<close>.  The embedding passes the state explicitly: every function that
  writes to \<open>gameState\<close> takes the state and returns the new one.  A JavaScript
  exception does not undo the writes made before it, so a function that can throw returns
  the state reached at the throw together with the error.

  What lies outside the two source files is a parameter of the model:
  \<^item> the payload of a card (every field of a deck card other than \<open>id\<close> and
    \<open>orientation\<close>; utils/deck.js is not part of the source at hand) is the type
    variable \<open>'p\<close>;
  \<^item> the result of \<open>generateDeck()\<close> and the index
    \<open>(playersArray.value.length * Math.random()) | 0\<close> are the two fields of an
    environment handed to each command;
  \<^item> \<open>broadcastUpdate\<close> and \<open>sendReject\<close> (use-socket-connections.js) are the
    two constructors of the effect a command returns; the console output is left out.
\<close>

subsection \<open>Data model\<close>

type_synonym uid = string
type_synonym cardId = string

datatype phase = Pregame | Ingame
datatype status = Waiting | Ready
datatype orientation = Up | Down

text \<open>A card as it is stored: a deck card may or may not carry an orientation.\<close>

record 'p card =
  cid :: cardId
  payload :: 'p
  orientation :: "orientation option"

text \<open>
  A card as a client sees it.  \<open>toFaceDown\<close> builds \<open>{id, orientation}\<close>, an object
  without payload; \<open>toFaceUp\<close> spreads \<open>cardMap[card.id]\<close>, which yields neither
  identifier nor payload when the identifier has no entry.
\<close>

record 'p viewCard =
  vid :: "cardId option"
  vpayload :: "'p option"
  vorientation :: orientation

text \<open>A player; the hand holds stored cards in the state and view cards in a projection.\<close>

record 'c player =
  status :: status
  position :: nat
  hand :: "'c list"
  isOnline :: bool

record command =
  cmdId :: string
  cmdFields :: "(string \<times> string) list"

record clientCommand =
  player :: uid
  command :: command

typedecl action

text \<open>
  \<open>players\<close> is a JavaScript object used as a dictionary.  It is an association list
  in the order of \<open>Object.keys\<close>, which is insertion order for keys that are not
  canonical array indices (user identifiers are not).
\<close>

record 'p gameState =
  phase :: phase
  activePlayerUid :: "uid option"
  actionQueue :: "action list"
  cardMap :: "cardId \<rightharpoonup> 'p card"
  discardPile :: "'p card list"
  drawPile :: "'p card list"
  players :: "(uid \<times> 'p card player) list"
  commands :: "clientCommand list"

definition initGameState :: "'p gameState" where
  "initGameState =
     \<lparr>phase = Pregame, activePlayerUid = None, actionQueue = [], cardMap = Map.empty,
      discardPile = [], drawPile = [], players = [], commands = []\<rparr>"

record 'p pileView =
  topCard :: "'p viewCard option"
  count :: nat

record 'p clientState =
  phaseC :: phase
  activePlayerUidC :: "uid option"
  actionQueueC :: "action list"
  discardPileC :: "'p pileView"
  drawPileC :: "'p pileView"
  playersC :: "(uid \<times> 'p viewCard player) list"

datatype error = Error string | TypeError string

fun message :: "error \<Rightarrow> string" where
  "message (Error m) = m"
| "message (TypeError m) = m"

record reject =
  rejectId :: string
  commandId :: string
  reason :: string

datatype 'p effect =
  BroadcastUpdate "(uid \<times> 'p clientState) list"
| SendReject uid reject

record 'p env =
  randomIndex :: nat
  generateDeck :: "'p card list \<times> (cardId \<rightharpoonup> 'p card)"

subsection \<open>Player roster\<close>

text \<open>
  \<open>playersArray\<close>: the entries of \<open>players\<close>, each \<open>{...player, uid}\<close> (here the
  pair of uid and player), sorted by position.  \<open>Array.prototype.sort\<close> is stable, as
  is \<open>sort_key\<close>.
\<close>

definition playersArray :: "'p gameState \<Rightarrow> (uid \<times> 'p card player) list" where
  "playersArray s = sort_key (\<lambda>e. position (snd e)) (players s)"

definition addPlayer :: "uid \<Rightarrow> 'p gameState \<Rightarrow> 'p gameState" where
  "addPlayer u s =
     (let pos = length (playersArray s);
          newPlayer = \<lparr>status = Waiting, position = pos, hand = [], isOnline = True\<rparr>
      in s\<lparr>players := AList.update u newPlayer (players s)\<rparr>)"

definition setPosition :: "nat \<times> uid \<Rightarrow> 'p gameState \<Rightarrow> 'p gameState" where
  "setPosition iu s =
     s\<lparr>players := AList.map_entry (snd iu) (\<lambda>p. p\<lparr>position := fst iu\<rparr>) (players s)\<rparr>"

definition removePlayer :: "uid \<Rightarrow> 'p gameState \<Rightarrow> 'p gameState" where
  "removePlayer u s =
     (let s1 = s\<lparr>players := AList.delete u (players s)\<rparr>
      in fold setPosition (enumerate 0 (map fst (playersArray s1))) s1)"

subsection \<open>Projection\<close>

definition toFaceUp :: "'p gameState \<Rightarrow> 'p card \<Rightarrow> 'p viewCard" where
  "toFaceUp s c =
     (case cardMap s (cid c) of
        None \<Rightarrow> \<lparr>vid = None, vpayload = None, vorientation = Up\<rparr>
      | Some c' \<Rightarrow> \<lparr>vid = Some (cid c'), vpayload = Some (payload c'), vorientation = Up\<rparr>)"

definition toFaceDown :: "'p card \<Rightarrow> 'p viewCard" where
  "toFaceDown c = \<lparr>vid = Some (cid c), vpayload = None, vorientation = Down\<rparr>"

definition projectHandCard :: "'p gameState \<Rightarrow> 'p card \<Rightarrow> 'p viewCard" where
  "projectHandCard s c = (if orientation c = Some Up then toFaceUp s c else toFaceDown c)"

definition projectPlayer ::
  "'p gameState \<Rightarrow> uid \<times> 'p card player \<Rightarrow> uid \<times> 'p viewCard player" where
  "projectPlayer s e =
     (fst e, \<lparr>status = status (snd e), position = position (snd e),
              hand = map (projectHandCard s) (hand (snd e)), isOnline = isOnline (snd e)\<rparr>)"

definition evalClientState :: "'p gameState \<Rightarrow> uid \<Rightarrow> 'p clientState" where
  "evalClientState s viewer =
     (let discardPileCount = length (discardPile s);
          discardView =
            \<lparr>topCard =
               (if discardPileCount > 0
                then let c = discardPile s ! (discardPileCount - 1)
                     in Some \<lparr>vid = Some (cid c), vpayload = Some (payload c), vorientation = Up\<rparr>
                else None),
             count = discardPileCount\<rparr>;
          drawPileCount = length (drawPile s);
          drawView =
            \<lparr>topCard =
               (if drawPileCount > 0
                then Some (toFaceDown (drawPile s ! (drawPileCount - 1)))
                else None),
             count = drawPileCount\<rparr>;
          playerViews = map (projectPlayer s) (playersArray s)
      in \<lparr>phaseC = phase s, activePlayerUidC = activePlayerUid s, actionQueueC = [],
          discardPileC = discardView, drawPileC = drawView, playersC = playerViews\<rparr>)"

subsection \<open>Starting a game\<close>

definition CARDS_PER_HAND :: nat where
  "CARDS_PER_HAND = 4"

text \<open>\<open>Array.prototype.pop\<close>: the last element and the shortened array, nothing when empty.\<close>

definition pop :: "'a list \<Rightarrow> ('a \<times> 'a list) option" where
  "pop xs = (case xs of [] \<Rightarrow> None | _ \<Rightarrow> Some (last xs, butlast xs))"

definition pushHand :: "uid \<Rightarrow> 'p card \<Rightarrow> 'p gameState \<Rightarrow> 'p gameState" where
  "pushHand u c s =
     s\<lparr>players := AList.map_entry u (\<lambda>p. p\<lparr>hand := hand p @ [c]\<rparr>) (players s)\<rparr>"

text \<open>One pass of the inner \<open>forEach\<close>: every seated player, in roster order, takes the top card.\<close>

fun dealRound :: "uid list \<Rightarrow> 'p gameState \<Rightarrow> 'p gameState \<times> error option" where
  "dealRound [] s = (s, None)"
| "dealRound (u # us) s =
     (case pop (drawPile s) of
        None \<Rightarrow> (s, Some (Error ''Overdraw from draw pile''))
      | Some (c, rest) \<Rightarrow>
          dealRound us (pushHand u (c\<lparr>orientation := Some Down\<rparr>) (s\<lparr>drawPile := rest\<rparr>)))"

text \<open>The outer \<open>for\<close> loop; the roster is read anew in each round.\<close>

fun dealRounds :: "nat \<Rightarrow> 'p gameState \<Rightarrow> 'p gameState \<times> error option" where
  "dealRounds 0 s = (s, None)"
| "dealRounds (Suc k) s =
     (case dealRound (map fst (playersArray s)) s of
        (s', Some e) \<Rightarrow> (s', Some e)
      | (s', None) \<Rightarrow> dealRounds k s')"

text \<open>
  \<open>startingPlayer ?? randomPlayer.uid\<close>: the right operand is evaluated only when no
  starting player is given, and reading \<open>uid\<close> of an index outside the roster raises a
  TypeError (the message is the one of V8).
\<close>

definition chooseActive ::
  "uid option \<Rightarrow> nat \<Rightarrow> (uid \<times> 'c player) list \<Rightarrow> error + uid" where
  "chooseActive startingPlayer i arr =
     (case startingPlayer of
        Some sp \<Rightarrow> Inr sp
      | None \<Rightarrow>
          if i < length arr then Inr (fst (arr ! i))
          else Inl (TypeError ''Cannot read properties of undefined (reading 'uid')''))"

definition startDiscard :: "'p gameState \<Rightarrow> 'p gameState \<times> error option" where
  "startDiscard s =
     (case pop (drawPile s) of
        None \<Rightarrow> (s, Some (Error ''Overdraw from draw pile''))
      | Some (c, rest) \<Rightarrow> (s\<lparr>drawPile := rest, discardPile := discardPile s @ [c]\<rparr>, None))"

definition startGame ::
  "uid option \<Rightarrow> 'p env \<Rightarrow> 'p gameState \<Rightarrow> 'p gameState \<times> error option" where
  "startGame startingPlayer env s =
     (if length (playersArray s) \<le> 1
      then (s, Some (Error ''Need at least two players to start game''))
      else
        let s1 = s\<lparr>phase := Ingame\<rparr>
        in case chooseActive startingPlayer (randomIndex env) (playersArray s1) of
             Inl e \<Rightarrow> (s1, Some e)
           | Inr a \<Rightarrow>
               let s2 = s1\<lparr>activePlayerUid := Some a\<rparr>;
                   s3 = s2\<lparr>drawPile := fst (generateDeck env),
                           cardMap := snd (generateDeck env)\<rparr>
               in case dealRounds CARDS_PER_HAND s3 of
                    (s4, Some e) \<Rightarrow> (s4, Some e)
                  | (s4, None) \<Rightarrow> startDiscard s4)"

subsection \<open>Command processing\<close>

definition setOnline :: "uid \<Rightarrow> bool \<Rightarrow> 'p gameState \<Rightarrow> 'p gameState" where
  "setOnline u b s = s\<lparr>players := AList.map_entry u (\<lambda>p. p\<lparr>isOnline := b\<rparr>) (players s)\<rparr>"

definition setStatus :: "uid \<Rightarrow> status \<Rightarrow> 'p gameState \<Rightarrow> 'p gameState" where
  "setStatus u st s = s\<lparr>players := AList.map_entry u (\<lambda>p. p\<lparr>status := st\<rparr>) (players s)\<rparr>"

definition isReady :: "uid \<times> 'c player \<Rightarrow> bool" where
  "isReady e = (status (snd e) = Ready)"

text \<open>
  \<open>gameState.players[player]\<close> reads a property of a plain object (the reactive
  proxy passes reads and writes through to it).  A uid that is no key of \<open>players\<close>
  but names a member that every object inherits from \<open>Object.prototype\<close> does not
  read as \<open>undefined\<close>: the read yields that member (a function, or the prototype
  itself for \<open>__proto__\<close>).  An own key shadows the inherited member.
\<close>

definition objectPrototypeKeys :: "string list" where
  "objectPrototypeKeys =
     [''constructor'', ''__defineGetter__'', ''__defineSetter__'', ''hasOwnProperty'',
      ''__lookupGetter__'', ''__lookupSetter__'', ''isPrototypeOf'', ''propertyIsEnumerable'',
      ''toString'', ''valueOf'', ''__proto__'', ''toLocaleString'']"

datatype 'c property = Undefined | Own "'c player" | Inherited

definition playersGet :: "'p gameState \<Rightarrow> uid \<Rightarrow> 'p card property" where
  "playersGet s u =
     (case map_of (players s) u of
        Some p \<Rightarrow> Own p
      | None \<Rightarrow> if u \<in> set objectPrototypeKeys then Inherited else Undefined)"

text \<open>
  The status assignment of \<open>toggle-ready\<close>, for a uid whose lookup is not
  \<open>undefined\<close>.  The \<open>status\<close> of an inherited member is \<open>undefined\<close>, which is
  neither \<open>"waiting"\<close> nor \<open>"ready"\<close>: nothing is assigned then.
\<close>

definition flipStatus :: "uid \<Rightarrow> 'p gameState \<Rightarrow> 'p gameState" where
  "flipStatus u s =
     (case playersGet s u of
        Own p \<Rightarrow>
          if status p = Waiting then setStatus u Ready s
          else if status p = Ready then setStatus u Waiting s
          else s
      | _ \<Rightarrow> s)"

text \<open>
  The \<open>toggle-ready\<close> case of the switch.  Reading \<open>status\<close> of \<open>undefined\<close>
  raises a TypeError (the message is the one of V8).
\<close>

definition toggleReady ::
  "uid \<Rightarrow> 'p env \<Rightarrow> 'p gameState \<Rightarrow> 'p gameState \<times> error option" where
  "toggleReady u env s =
     (if phase s = Ingame then (s, Some (Error ''Game has already started''))
      else
        case playersGet s u of
          Undefined \<Rightarrow>
            (s, Some (TypeError ''Cannot read properties of undefined (reading 'status')''))
        | _ \<Rightarrow>
            let s1 = flipStatus u s
            in if list_all isReady (playersArray s1) then startGame None env s1
               else (s1, None))"

text \<open>The case labels whose bodies hold only comments.\<close>

definition stubCommands :: "string list" where
  "stubCommands =
     [''restart-game'', ''call-dutch'', ''draw-discard-pile'', ''draw-draw-pile'',
      ''match-discard'', ''peek'', ''replace-discard'', ''swap'']"


text \<open>
  The body of the \<open>try\<close> block up to the end of the switch; an identifier that
  matches no case label falls through it.  Where the uid names an inherited member, the
  assignment to \<open>isOnline\<close> lands on that member and not in \<open>players\<close>
  (\<open>setOnline\<close> changes no entry then), and \<open>removePlayer\<close> deletes nothing and
  renumbers.
\<close>

definition dispatch ::
  "clientCommand \<Rightarrow> 'p env \<Rightarrow> 'p gameState \<Rightarrow> 'p gameState \<times> error option" where
  "dispatch cc env s =
     (let u = player cc; c = cmdId (command cc)
      in if c = ''connect-to-room'' then
           (if playersGet s u = Undefined
            then (if phase s = Pregame then (addPlayer u s, None) else (s, None))
            else (setOnline u True s, None))
         else if c = ''disconnect-from-room'' then
           (if playersGet s u \<noteq> Undefined
            then (if phase s = Ingame then (setOnline u False s, None)
                  else (removePlayer u s, None))
            else (s, None))
         else if c = ''toggle-ready'' then toggleReady u env s
         else if c \<in> set stubCommands then (s, None)
         else (s, None))"


definition clientStates :: "'p gameState \<Rightarrow> (uid \<times> 'p clientState) list" where
  "clientStates s = map (\<lambda>e. (fst e, evalClientState s (fst e))) (players s)"

definition executeCommand ::
  "clientCommand \<Rightarrow> 'p env \<Rightarrow> 'p gameState \<Rightarrow> 'p gameState \<times> 'p effect" where
  "executeCommand cc env s =
     (case dispatch cc env s of
        (s', None) \<Rightarrow>
          (s'\<lparr>commands := commands s' @ [cc]\<rparr>, BroadcastUpdate (clientStates s'))
      | (s', Some e) \<Rightarrow>
          (s', SendReject (player cc)
                 \<lparr>rejectId = ''reject'', commandId = cmdId (command cc), reason = message e\<rparr>))"

text \<open>Commands processed one after the other, each with its own environment.\<close>

fun run :: "(clientCommand \<times> 'p env) list \<Rightarrow> 'p gameState \<Rightarrow> 'p gameState" where
  "run [] s = s"
| "run (ce # ces) s = run ces (fst (executeCommand (fst ce) (snd ce) s))"

inductive reachable :: "'p gameState \<Rightarrow> bool" where
  reachable_init: "reachable initGameState"
| reachable_step: "reachable s \<Longrightarrow> reachable (fst (executeCommand cc env s))"

subsection \<open>Notions used in the statements and proofs\<close>

text \<open>The change that an assignment to a field of \<open>players[k]\<close> makes to one entry.\<close>

definition updEntry :: "'k \<Rightarrow> ('v \<Rightarrow> 'v) \<Rightarrow> 'k \<times> 'v \<Rightarrow> 'k \<times> 'v" where
  "updEntry k f e = (if fst e = k then (fst e, f (snd e)) else e)"

text \<open>
  The entry of a uid after the renumbering loop, given the index that the loop pairs
  with each uid.
\<close>

definition renumbered :: "(uid \<times> nat) list \<Rightarrow> uid \<times> 'c player \<Rightarrow> uid \<times> 'c player" where
  "renumbered m e =
     (case map_of m (fst e) of
        None \<Rightarrow> e
      | Some i \<Rightarrow> (fst e, (snd e)\<lparr>position := i\<rparr>))"

text \<open>
  The roster is well formed: the keys of \<open>players\<close> are distinct (it is an object),
  and read in roster order the positions are \<open>0, 1, ..., n - 1\<close>.
\<close>

definition rosterPositions :: "'p gameState \<Rightarrow> nat list" where
  "rosterPositions s = map (\<lambda>e. position (snd e)) (playersArray s)"

definition rosterInv :: "'p gameState \<Rightarrow> bool" where
  "rosterInv s \<longleftrightarrow>
     distinct (map fst (players s)) \<and> rosterPositions s = [0..<length (players s)]"

text \<open>
  Before the game starts nothing has been dealt; once it has started at least two players
  are seated.
\<close>

definition pregameInv :: "'p gameState \<Rightarrow> bool" where
  "pregameInv s \<longleftrightarrow>
     (phase s = Pregame \<longrightarrow> (\<forall>e \<in> set (players s). hand (snd e) = []) \<and> discardPile s = [])"

definition ingameInv :: "'p gameState \<Rightarrow> bool" where
  "ingameInv s \<longleftrightarrow> (phase s = Ingame \<longrightarrow> 2 \<le> length (players s))"

definition stateInv :: "'p gameState \<Rightarrow> bool" where
  "stateInv s \<longleftrightarrow> rosterInv s \<and> pregameInv s \<and> ingameInv s"

text \<open>
  The identifiers of all cards in play, location by location: the draw pile, the discard
  pile, then the hands of the players.
\<close>

definition handCardIds :: "(uid \<times> 'p card player) list \<Rightarrow> cardId list" where
  "handCardIds al = concat (map (\<lambda>e. map cid (hand (snd e))) al)"

definition allCardIds :: "'p gameState \<Rightarrow> cardId list" where
  "allCardIds s = map cid (drawPile s) @ map cid (discardPile s) @ handCardIds (players s)"

text \<open>The hand stored under a uid (empty when the uid is not seated).\<close>

definition handOf :: "'p gameState \<Rightarrow> uid \<Rightarrow> 'p card list" where
  "handOf s u = (case map_of (players s) u of None \<Rightarrow> [] | Some p \<Rightarrow> hand p)"

text \<open>A card as it is pushed onto a hand: \<open>{...card, orientation: "down"}\<close>.\<close>

definition faceDown :: "'p card \<Rightarrow> 'p card" where
  "faceDown c = c\<lparr>orientation := Some Down\<rparr>"

subsection \<open>Example inputs\<close>

text \<open>Concrete commands, decks and environments on which the theorems are instantiated.\<close>

definition cmd :: "uid \<Rightarrow> string \<Rightarrow> clientCommand" where
  "cmd u c = \<lparr>player = u, command = \<lparr>cmdId = c, cmdFields = []\<rparr>\<rparr>"

definition exampleDeck :: "nat \<Rightarrow> nat card list" where
  "exampleDeck n =
     map (\<lambda>i. \<lparr>cid = replicate (Suc i) CHR ''c'', payload = i, orientation = None\<rparr>) [0..<n]"

definition exampleEnv :: "nat \<Rightarrow> nat env" where
  "exampleEnv n =
     \<lparr>randomIndex = 0,
      generateDeck = (exampleDeck n, map_of (map (\<lambda>c. (cid c, c)) (exampleDeck n)))\<rparr>"

text \<open>Two players connect and both toggle ready, with a deck of \<open>n\<close> cards.\<close>

definition exampleGame :: "nat \<Rightarrow> (clientCommand \<times> nat env) list" where
  "exampleGame n =
     [(cmd ''A'' ''connect-to-room'', exampleEnv n), (cmd ''B'' ''connect-to-room'', exampleEnv n),
      (cmd ''A'' ''toggle-ready'', exampleEnv n), (cmd ''B'' ''toggle-ready'', exampleEnv n)]"

text \<open>One player alone in the lobby.\<close>

definition exampleLobby :: "(clientCommand \<times> nat env) list" where
  "exampleLobby = [(cmd ''A'' ''connect-to-room'', exampleEnv 10)]"


text \<open>Two players and a deck of seven cards, up to the last \<open>toggle-ready\<close>.\<close>

definition exampleShortDeck :: "(clientCommand \<times> nat env) list" where
  "exampleShortDeck = take 3 (exampleGame 7)"



text \<open>Two players and a deck of ten cards, up to the last \<open>toggle-ready\<close>.\<close>

definition exampleBeforeStart :: "(clientCommand \<times> nat env) list" where
  "exampleBeforeStart = take 3 (exampleGame 10)"

section \<open>Properties\<close>

subsection \<open>Fields left alone by the operations\<close>

lemma phase_setOnline [simp]: "phase (setOnline u b s) = phase s"
  and commands_setOnline [simp]: "commands (setOnline u b s) = commands s"
  by (simp_all add: setOnline_def)

lemma phase_setStatus [simp]: "phase (setStatus u st s) = phase s"
  and commands_setStatus [simp]: "commands (setStatus u st s) = commands s"
  by (simp_all add: setStatus_def)

lemma phase_pushHand [simp]: "phase (pushHand u c s) = phase s"
  and commands_pushHand [simp]: "commands (pushHand u c s) = commands s"
  and drawPile_pushHand [simp]: "drawPile (pushHand u c s) = drawPile s"
  and discardPile_pushHand [simp]: "discardPile (pushHand u c s) = discardPile s"
  by (simp_all add: pushHand_def)

lemma phase_addPlayer [simp]: "phase (addPlayer u s) = phase s"
  and commands_addPlayer [simp]: "commands (addPlayer u s) = commands s"
  by (simp_all add: addPlayer_def Let_def)

lemma phase_setPosition [simp]: "phase (setPosition iu s) = phase s"
  and commands_setPosition [simp]: "commands (setPosition iu s) = commands s"
  by (simp_all add: setPosition_def)

lemma fold_setPosition_fields [simp]:
  "phase (fold setPosition xs s) = phase s"
  "commands (fold setPosition xs s) = commands s"
  by (induction xs arbitrary: s) simp_all

lemma phase_removePlayer [simp]: "phase (removePlayer u s) = phase s"
  and commands_removePlayer [simp]: "commands (removePlayer u s) = commands s"
  by (simp_all add: removePlayer_def Let_def)

lemma dealRound_fields:
  "dealRound us s = (s', r) \<Longrightarrow> phase s' = phase s \<and> commands s' = commands s"
  by (induction us arbitrary: s) (auto simp: pop_def split: list.splits option.splits prod.splits)

lemma dealRounds_fields:
  "dealRounds k s = (s', r) \<Longrightarrow> phase s' = phase s \<and> commands s' = commands s"
proof (induction k arbitrary: s)
  case 0
  then show ?case by simp
next
  case (Suc k)
  obtain s1 r1 where d: "dealRound (map fst (playersArray s)) s = (s1, r1)"
    by (cases "dealRound (map fst (playersArray s)) s")
  from dealRound_fields[OF d] have f: "phase s1 = phase s" "commands s1 = commands s" by simp_all
  show ?case
  proof (cases r1)
    case None
    with Suc.prems d have "dealRounds k s1 = (s', r)" by simp
    from Suc.IH[OF this] f show ?thesis by simp
  next
    case (Some e)
    with Suc.prems d have "s' = s1" by simp
    with f show ?thesis by simp
  qed
qed

lemma startDiscard_fields:
  "startDiscard s = (s', r) \<Longrightarrow> phase s' = phase s \<and> commands s' = commands s"
  by (auto simp: startDiscard_def pop_def split: list.splits)

lemma startGame_commands:
  "startGame sp env s = (s', r) \<Longrightarrow> commands s' = commands s"
  by (auto simp: startGame_def Let_def split: if_splits sum.splits prod.splits option.splits
      dest!: dealRounds_fields startDiscard_fields)

lemma startGame_phase:
  "startGame sp env s = (s', r) \<Longrightarrow> phase s' = (if length (players s) \<le> 1 then phase s else Ingame)"
  by (auto simp: startGame_def Let_def playersArray_def split: if_splits sum.splits prod.splits option.splits
      dest!: dealRounds_fields startDiscard_fields)

lemma playersGet_Undefined_iff:
  "playersGet s u = Undefined \<longleftrightarrow> map_of (players s) u = None \<and> u \<notin> set objectPrototypeKeys"
  by (simp add: playersGet_def split: option.splits)

lemma playersGet_Own: "map_of (players s) u = Some p \<Longrightarrow> playersGet s u = Own p"
  by (simp add: playersGet_def)

lemma flipStatus_conv:
  "flipStatus u s =
     (case map_of (players s) u of
        None \<Rightarrow> s
      | Some p \<Rightarrow>
          if status p = Waiting then setStatus u Ready s
          else if status p = Ready then setStatus u Waiting s
          else s)"
  by (simp add: flipStatus_def playersGet_def split: option.splits)

lemma commands_flipStatus [simp]: "commands (flipStatus u s) = commands s"
  by (simp add: flipStatus_conv split: option.splits)

lemma toggleReady_commands:
  "toggleReady u env s = (s', r) \<Longrightarrow> commands s' = commands s"
  by (auto simp: toggleReady_def Let_def split: if_splits property.splits dest!: startGame_commands)

lemma dispatch_commands:
  "dispatch cc env s = (s', r) \<Longrightarrow> commands s' = commands s"
  by (auto simp: dispatch_def Let_def split: if_splits dest!: toggleReady_commands)

subsection \<open>Projection\<close>

lemmas example_defs = exampleGame_def exampleEnv_def exampleDeck_def cmd_def

lemmas model_defs = executeCommand_def dispatch_def toggleReady_def playersGet_def
  objectPrototypeKeys_def flipStatus_def startGame_def
  startDiscard_def chooseActive_def pop_def pushHand_def setStatus_def setOnline_def
  addPlayer_def removePlayer_def setPosition_def playersArray_def initGameState_def
  CARDS_PER_HAND_def isReady_def stubCommands_def clientStates_def

lemma exampleGame_state:
  "run (exampleGame 10) initGameState =
     \<lparr>phase = Ingame, activePlayerUid = Some ''A'', actionQueue = [],
      cardMap = map_of (map (\<lambda>c. (cid c, c)) (exampleDeck 10)),
      discardPile = [\<lparr>cid = ''cc'', payload = 1, orientation = None\<rparr>],
      drawPile = [\<lparr>cid = ''c'', payload = 0, orientation = None\<rparr>],
      players =
        [(''A'', \<lparr>status = Ready, position = 0,
                  hand = [\<lparr>cid = ''cccccccccc'', payload = 9, orientation = Some Down\<rparr>,
                          \<lparr>cid = ''cccccccc'', payload = 7, orientation = Some Down\<rparr>,
                          \<lparr>cid = ''cccccc'', payload = 5, orientation = Some Down\<rparr>,
                          \<lparr>cid = ''cccc'', payload = 3, orientation = Some Down\<rparr>],
                  isOnline = True\<rparr>),
         (''B'', \<lparr>status = Ready, position = 1,
                  hand = [\<lparr>cid = ''ccccccccc'', payload = 8, orientation = Some Down\<rparr>,
                          \<lparr>cid = ''ccccccc'', payload = 6, orientation = Some Down\<rparr>,
                          \<lparr>cid = ''ccccc'', payload = 4, orientation = Some Down\<rparr>,
                          \<lparr>cid = ''ccc'', payload = 2, orientation = Some Down\<rparr>],
                  isOnline = True\<rparr>)],
      commands = map fst (exampleGame 10)\<rparr>"
  by (simp add: example_defs model_defs Let_def numeral_eq_Suc)

lemma projectHandCard_down:
  "orientation c \<noteq> Some Up \<Longrightarrow>
     projectHandCard s c = \<lparr>vid = Some (cid c), vpayload = None, vorientation = Down\<rparr>"
  by (simp add: projectHandCard_def toFaceDown_def)

lemma projectHandCard_payload:
  "vorientation (projectHandCard s c) = Down \<Longrightarrow> vpayload (projectHandCard s c) = None"
  by (auto simp: projectHandCard_def toFaceDown_def toFaceUp_def split: if_splits option.splits)

lemma playersC_evalClientState:
  "playersC (evalClientState s viewer) = map (projectPlayer s) (playersArray s)"
  by (simp add: evalClientState_def Let_def)

lemma drawPileC_evalClientState:
  "drawPileC (evalClientState s viewer) =
     \<lparr>topCard = (case drawPile s of [] \<Rightarrow> None | _ \<Rightarrow> Some (toFaceDown (last (drawPile s)))),
      count = length (drawPile s)\<rparr>"
  by (cases "drawPile s") (simp_all add: evalClientState_def Let_def last_conv_nth)

text \<open>
  C2.  Whatever the state and the viewer, the projection shows the roster in order, every
  hand card whose stored orientation is not \<open>up\<close> as its identifier and the
  orientation \<open>down\<close> with no payload, no payload on any card it shows face down,
  and of the draw pile only the count and the top card, face down and without payload.
\<close>

theorem evalClientState_hides_face_down:
  "map fst (playersC (evalClientState s viewer)) = map fst (playersArray s)
   \<and> (\<forall>i < length (playersArray s).
        length (hand (snd (playersC (evalClientState s viewer) ! i)))
          = length (hand (snd (playersArray s ! i)))
        \<and> (\<forall>j < length (hand (snd (playersArray s ! i))).
             orientation (hand (snd (playersArray s ! i)) ! j) \<noteq> Some Up \<longrightarrow>
             hand (snd (playersC (evalClientState s viewer) ! i)) ! j
               = \<lparr>vid = Some (cid (hand (snd (playersArray s ! i)) ! j)),
                  vpayload = None, vorientation = Down\<rparr>))
   \<and> (\<forall>e \<in> set (playersC (evalClientState s viewer)). \<forall>vc \<in> set (hand (snd e)).
        vorientation vc = Down \<longrightarrow> vpayload vc = None)
   \<and> drawPileC (evalClientState s viewer)
       = \<lparr>topCard = (case drawPile s of [] \<Rightarrow> None
                     | _ \<Rightarrow> Some \<lparr>vid = Some (cid (last (drawPile s))),
                                  vpayload = None, vorientation = Down\<rparr>),
          count = length (drawPile s)\<rparr>"
proof (intro conjI allI impI ballI)
  show "map fst (playersC (evalClientState s viewer)) = map fst (playersArray s)"
    by (simp add: playersC_evalClientState projectPlayer_def comp_def)
next
  fix i assume "i < length (playersArray s)"
  then show "length (hand (snd (playersC (evalClientState s viewer) ! i)))
          = length (hand (snd (playersArray s ! i)))"
    by (simp add: playersC_evalClientState projectPlayer_def)
next
  fix i j
  assume "i < length (playersArray s)" "j < length (hand (snd (playersArray s ! i)))"
    "orientation (hand (snd (playersArray s ! i)) ! j) \<noteq> Some Up"
  then show "hand (snd (playersC (evalClientState s viewer) ! i)) ! j
               = \<lparr>vid = Some (cid (hand (snd (playersArray s ! i)) ! j)),
                  vpayload = None, vorientation = Down\<rparr>"
    by (simp add: playersC_evalClientState projectPlayer_def projectHandCard_down)
next
  fix e vc
  assume "e \<in> set (playersC (evalClientState s viewer))" "vc \<in> set (hand (snd e))"
    "vorientation vc = Down"
  then show "vpayload vc = None"
    by (auto simp: playersC_evalClientState projectPlayer_def projectHandCard_payload)
next
  show "drawPileC (evalClientState s viewer)
       = \<lparr>topCard = (case drawPile s of [] \<Rightarrow> None
                     | _ \<Rightarrow> Some \<lparr>vid = Some (cid (last (drawPile s))),
                                  vpayload = None, vorientation = Down\<rparr>),
          count = length (drawPile s)\<rparr>"
    by (simp add: drawPileC_evalClientState toFaceDown_def split: list.splits)
qed

theorem evalClientState_hides_face_down_witness:
  "hand (snd (playersC (evalClientState (run (exampleGame 10) initGameState) ''B'') ! 0)) ! 0
     = \<lparr>vid = Some ''cccccccccc'', vpayload = None, vorientation = Down\<rparr>
   \<and> topCard (drawPileC (evalClientState (run (exampleGame 10) initGameState) ''B''))
     = Some \<lparr>vid = Some ''c'', vpayload = None, vorientation = Down\<rparr>"
  using evalClientState_hides_face_down [of "run (exampleGame 10) initGameState" "''B''"]
  by (simp add: exampleGame_state playersArray_def)

subsection \<open>Viewer independence and stub commands\<close>

lemma projectPlayer_commands [simp]: "projectPlayer (s\<lparr>commands := cs\<rparr>) = projectPlayer s"
  by (rule ext) (simp add: projectPlayer_def projectHandCard_def toFaceUp_def)

lemma evalClientState_commands [simp]:
  "evalClientState (s\<lparr>commands := cs\<rparr>) u = evalClientState s u"
  by (simp add: evalClientState_def playersArray_def Let_def)

lemma evalClientState_any_viewer: "evalClientState s u = evalClientState s v"
  by (simp add: evalClientState_def)

text \<open>
  C10.  \<open>evalClientState\<close> only reads the state (the embedding is a function of the
  state that returns the view and nothing else), its result does not depend on the viewer,
  and the update that \<open>executeCommand\<close> broadcasts holds one entry per player of the
  resulting state, each of them that same view.
\<close>

theorem evalClientState_viewer_independent:
  "evalClientState s u = evalClientState s v
   \<and> (\<forall>m. snd (executeCommand cc env s) = BroadcastUpdate m \<longrightarrow>
         map fst m = map fst (players (fst (executeCommand cc env s)))
         \<and> (\<forall>e \<in> set m. snd e = evalClientState (fst (executeCommand cc env s)) u))"
proof (intro conjI allI impI)
  show "evalClientState s u = evalClientState s v"
    by (rule evalClientState_any_viewer)
next
  fix m
  assume b: "snd (executeCommand cc env s) = BroadcastUpdate m"
  obtain s' r where d: "dispatch cc env s = (s', r)"
    by (cases "dispatch cc env s")
  with b have r: "r = None" and m: "m = clientStates s'"
    by (auto simp: executeCommand_def split: option.splits)
  from d r have f: "fst (executeCommand cc env s) = s'\<lparr>commands := commands s' @ [cc]\<rparr>"
    by (simp add: executeCommand_def)
  show "map fst m = map fst (players (fst (executeCommand cc env s)))"
    by (simp add: m f clientStates_def comp_def)
  show "\<forall>e \<in> set m. snd e = evalClientState (fst (executeCommand cc env s)) u"
    by (auto simp: m f clientStates_def intro: evalClientState_any_viewer)
qed

theorem evalClientState_viewer_independent_witness:
  "\<exists>m. snd (executeCommand (cmd ''A'' ''swap'') (exampleEnv 10) (run (exampleGame 10) initGameState))
          = BroadcastUpdate m
       \<and> map fst m = [''A'', ''B'']
       \<and> (\<forall>e \<in> set m. snd e = evalClientState
            (fst (executeCommand (cmd ''A'' ''swap'') (exampleEnv 10) (run (exampleGame 10) initGameState)))
            ''B'')"
proof -
  let ?s = "run (exampleGame 10) initGameState"
  have b: "snd (executeCommand (cmd ''A'' ''swap'') (exampleEnv 10) ?s) = BroadcastUpdate (clientStates ?s)"
    by (simp add: executeCommand_def dispatch_def cmd_def stubCommands_def)
  have p: "map fst (players (fst (executeCommand (cmd ''A'' ''swap'') (exampleEnv 10) ?s))) = [''A'', ''B'']"
    by (simp add: executeCommand_def dispatch_def cmd_def stubCommands_def exampleGame_state)
  from evalClientState_viewer_independent [of ?s "''B''" "''B''" "cmd ''A'' ''swap''" "exampleEnv 10"] b p
  show ?thesis by simp
qed



subsection \<open>The roster\<close>

lemma map_entry_keys [simp]: "map fst (AList.map_entry k f al) = map fst al"
  by (induction al) auto

lemma length_map_entry [simp]: "length (AList.map_entry k f al) = length al"
  by (induction al) auto

lemma map_updEntry_absent: "k \<notin> fst ` set al \<Longrightarrow> map (updEntry k f) al = al"
  by (induction al) (auto simp: updEntry_def)

lemma map_entry_conv_map:
  "distinct (map fst al) \<Longrightarrow> AList.map_entry k f al = map (updEntry k f) al"
proof (induction al)
  case Nil
  then show ?case by simp
next
  case (Cons p ps)
  show ?case
  proof (cases "fst p = k")
    case True
    with Cons.prems have "k \<notin> fst ` set ps" by auto
    then have "map (updEntry k f) ps = ps" by (rule map_updEntry_absent)
    moreover from True have "updEntry k f p = (k, f (snd p))" by (simp add: updEntry_def)
    ultimately show ?thesis using True by simp
  next
    case False
    with Cons show ?thesis by (simp add: updEntry_def)
  qed
qed

lemma fst_updEntry [simp]: "fst (updEntry k f e) = fst e"
  by (simp add: updEntry_def)

lemma insort_key_map_commute:
  assumes "\<And>x. g (h x) = g x"
  shows "insort_key g (h x) (map h xs) = map h (insort_key g x xs)"
  by (induction xs) (simp_all add: assms)

lemma sort_key_map_commute:
  assumes "\<And>x. g (h x) = g x"
  shows "sort_key g (map h xs) = map h (sort_key g xs)"
  by (induction xs) (simp_all add: insort_key_map_commute [of g h, OF assms])

lemma playersArray_map_entry:
  assumes "distinct (map fst (players s))" and "\<And>p. position (f p) = position p"
  shows "playersArray (s\<lparr>players := AList.map_entry k f (players s)\<rparr>)
           = map (updEntry k f) (playersArray s)"
proof -
  have "\<And>e. position (snd (updEntry k f e)) = position (snd e)"
    by (simp add: updEntry_def assms(2))
  then show ?thesis
    by (simp add: playersArray_def map_entry_conv_map [OF assms(1)] sort_key_map_commute)
qed

lemma insort_key_snoc:
  "f a \<le> f x \<Longrightarrow> insort_key f a (ys @ [x]) = insort_key f a ys @ [x]"
  by (induction ys) simp_all

lemma sort_key_snoc:
  "\<forall>y \<in> set xs. f y \<le> f x \<Longrightarrow> sort_key f (xs @ [x]) = sort_key f xs @ [x]"
  by (induction xs) (simp_all add: insort_key_snoc)

lemma update_absent: "k \<notin> fst ` set al \<Longrightarrow> AList.update k v al = al @ [(k, v)]"
  by (induction al) auto

lemma rosterInv_position_less:
  assumes "rosterInv s" "e \<in> set (players s)"
  shows "position (snd e) < length (players s)"
proof -
  from assms(2) have "e \<in> set (playersArray s)" by (simp add: playersArray_def)
  then have "position (snd e) \<in> set (rosterPositions s)" by (auto simp: rosterPositions_def)
  with assms(1) show ?thesis by (simp add: rosterInv_def)
qed

lemma length_playersArray [simp]: "length (playersArray s) = length (players s)"
  by (simp add: playersArray_def)

lemma set_playersArray [simp]: "set (playersArray s) = set (players s)"
  by (simp add: playersArray_def)

lemma rosterInv_addPlayer:
  assumes "rosterInv s" "map_of (players s) u = None"
  shows "rosterInv (addPlayer u s)"
    and "playersArray (addPlayer u s)
           = playersArray s @ [(u, \<lparr>status = Waiting, position = length (players s), hand = [], isOnline = True\<rparr>)]"
proof -
  let ?new = "(u, \<lparr>status = Waiting, position = length (players s), hand = ([] :: 'a card list), isOnline = True\<rparr>)"
  from assms(2) have absent: "u \<notin> fst ` set (players s)" by (simp add: map_of_eq_None_iff)
  then have pl: "players (addPlayer u s) = players s @ [?new]"
    by (simp add: addPlayer_def Let_def update_absent)
  have "\<forall>y \<in> set (players s). position (snd y) \<le> position (snd ?new)"
    using rosterInv_position_less [OF assms(1)] by (auto intro: less_imp_le)
  then show arr: "playersArray (addPlayer u s) = playersArray s @ [?new]"
    unfolding playersArray_def pl by (rule sort_key_snoc)
  from assms(1) absent show "rosterInv (addPlayer u s)"
    by (simp add: rosterInv_def rosterPositions_def arr pl)
qed

lemma rosterInv_map_entry:
  assumes "rosterInv s" and "\<And>p. position (f p) = position p"
  shows "rosterInv (s\<lparr>players := AList.map_entry k f (players s)\<rparr>)"
proof -
  from assms(1) have d: "distinct (map fst (players s))" by (simp add: rosterInv_def)
  have "\<And>e. position (snd (updEntry k f e)) = position (snd e)"
    by (simp add: updEntry_def assms(2))
  then have "rosterPositions (s\<lparr>players := AList.map_entry k f (players s)\<rparr>) = rosterPositions s"
    by (simp add: rosterPositions_def playersArray_map_entry [OF d assms(2)] comp_def)
  with assms(1) show ?thesis by (simp add: rosterInv_def)
qed

lemma fold_setPosition_players:
  "players (fold setPosition ius s)
     = fold (\<lambda>iu. AList.map_entry (snd iu) (\<lambda>p. p\<lparr>position := fst iu\<rparr>)) ius (players s)"
  by (induction ius arbitrary: s) (simp_all add: setPosition_def)

lemma distinct_map_sort_key [simp]: "distinct (map f (sort_key g xs)) = distinct (map f xs)"
  by (rule mset_eq_imp_distinct_iff) simp

lemma fst_renumbered [simp]: "fst (renumbered m e) = fst e"
  by (simp add: renumbered_def split: option.splits)

lemma renumber_fold:
  assumes "distinct (map fst al)" "distinct (map snd ius)"
  shows "fold (\<lambda>iu. AList.map_entry (snd iu) (\<lambda>p. p\<lparr>position := fst iu\<rparr>)) ius al
           = map (renumbered (map (\<lambda>iu. (snd iu, fst iu)) ius)) al"
  using assms
proof (induction ius arbitrary: al)
  case Nil
  then show ?case by (simp add: renumbered_def)
next
  case (Cons iu ius)
  let ?f = "\<lambda>p :: 'a player. p\<lparr>position := fst iu\<rparr>"
  let ?m = "map (\<lambda>iu. (snd iu, fst iu)) ius"
  from Cons.prems(2) have "snd iu \<notin> snd ` set ius" by simp
  then have notin: "map_of ?m (snd iu) = None"
    by (simp add: map_of_eq_None_iff image_image)
  have d: "distinct (map fst (AList.map_entry (snd iu) ?f al))"
    using Cons.prems(1) by simp
  have "fold (\<lambda>iu. AList.map_entry (snd iu) (\<lambda>p. p\<lparr>position := fst iu\<rparr>)) (iu # ius) al
          = map (renumbered ?m) (AList.map_entry (snd iu) ?f al)"
    using Cons.IH [OF d] Cons.prems(2) by simp
  also have "\<dots> = map (renumbered ?m \<circ> updEntry (snd iu) ?f) al"
    by (simp add: map_entry_conv_map [OF Cons.prems(1)])
  also have "\<dots> = map (renumbered (map (\<lambda>iu. (snd iu, fst iu)) (iu # ius))) al"
  proof (rule map_cong [OF refl])
    fix e
    show "(renumbered ?m \<circ> updEntry (snd iu) ?f) e
            = renumbered (map (\<lambda>iu. (snd iu, fst iu)) (iu # ius)) e"
      using notin by (simp add: renumbered_def updEntry_def)
  qed
  finally show ?case .
qed

lemma renumbered_positions:
  assumes "distinct (map fst arr)"
  shows "map (\<lambda>e. position (snd (renumbered (zip (map fst arr) [0..<length arr]) e))) arr
           = [0..<length arr]"
proof (rule nth_equalityI)
  show "length (map (\<lambda>e. position (snd (renumbered (zip (map fst arr) [0..<length arr]) e))) arr)
          = length [0..<length arr]"
    by simp
next
  fix j
  assume "j < length (map (\<lambda>e. position (snd (renumbered (zip (map fst arr) [0..<length arr]) e))) arr)"
  then have j: "j < length arr" by simp
  have "map_of (zip (map fst arr) [0..<length arr]) (map fst arr ! j) = Some ([0..<length arr] ! j)"
    using assms j by (intro map_of_zip_nth) simp_all
  with j have "map_of (zip (map fst arr) [0..<length arr]) (fst (arr ! j)) = Some j"
    by simp
  with j show "map (\<lambda>e. position (snd (renumbered (zip (map fst arr) [0..<length arr]) e))) arr ! j
                 = [0..<length arr] ! j"
    by (simp add: renumbered_def)
qed

lemma sort_key_renumbered:
  assumes d: "distinct (map fst al)"
  defines "arr \<equiv> sort_key (\<lambda>e. position (snd e)) al"
  defines "g \<equiv> renumbered (zip (map fst arr) [0..<length arr])"
  shows "sort_key (\<lambda>e. position (snd e)) (map g al) = map g arr"
proof (rule sort_key_inj_key_eq)
  have ms: "mset arr = mset al" by (simp add: arr_def)
  then show "mset (map g al) = mset (map g arr)" by simp
  from d have darr: "distinct (map fst arr)" by (simp add: arr_def)
  have pos: "map (\<lambda>e. position (snd e)) (map g arr) = [0..<length arr]"
    using renumbered_positions [OF darr] by (simp add: g_def comp_def)
  then show "sorted (map (\<lambda>e. position (snd e)) (map g arr))" by simp
  from ms have "mset (map (\<lambda>e. position (snd e)) (map g al))
                  = mset (map (\<lambda>e. position (snd e)) (map g arr))" by simp
  then have "distinct (map (\<lambda>e. position (snd e)) (map g al))
               = distinct (map (\<lambda>e. position (snd e)) (map g arr))"
    by (rule mset_eq_imp_distinct_iff)
  with pos have "distinct (map (\<lambda>e. position (snd e)) (map g al))" by simp
  then show "inj_on (\<lambda>e. position (snd e)) (set (map g al))"
    by (simp only: distinct_map)
qed

lemma delete_conv_filter: "AList.delete k al = filter (\<lambda>e. fst e \<noteq> k) al"
  by (induction al) auto

lemma playersArray_removePlayer:
  assumes "distinct (map fst (players s))"
  shows "playersArray (removePlayer u s)
           = map (renumbered (zip (map fst (filter (\<lambda>e. fst e \<noteq> u) (playersArray s)))
                                  [0..<length (filter (\<lambda>e. fst e \<noteq> u) (playersArray s))]))
                 (filter (\<lambda>e. fst e \<noteq> u) (playersArray s))"
proof -
  let ?al = "AList.delete u (players s)"
  let ?arr = "sort_key (\<lambda>e. position (snd e)) ?al"
  have arr: "?arr = filter (\<lambda>e. fst e \<noteq> u) (playersArray s)"
    by (simp add: delete_conv_filter filter_sort playersArray_def)
  have d: "distinct (map fst ?al)"
    using assms by (rule AList.distinct_delete)
  from d have darr: "distinct (map fst ?arr)" by simp
  have m: "map (\<lambda>iu. (snd iu, fst iu)) (enumerate 0 (map fst ?arr))
             = zip (map fst ?arr) [0..<length ?arr]"
    by (simp add: enumerate_eq_zip zip_map_fst_snd [symmetric] zip_commute [of "[0..<length ?arr]"]
          del: length_sort) (simp add: zip_map1 zip_map2 comp_def case_prod_beta)
  have "players (removePlayer u s)
          = map (renumbered (zip (map fst ?arr) [0..<length ?arr])) ?al"
    using renumber_fold [OF d, of "enumerate 0 (map fst ?arr)"] darr
    by (simp add: removePlayer_def Let_def fold_setPosition_players playersArray_def m)
  then have "playersArray (removePlayer u s)
          = map (renumbered (zip (map fst ?arr) [0..<length ?arr])) ?arr"
    using sort_key_renumbered [OF d] by (simp add: playersArray_def)
  then show ?thesis by (simp only: arr)
qed

lemma players_removePlayer:
  assumes "distinct (map fst (players s))"
  shows "players (removePlayer u s)
           = map (renumbered (zip (map fst (filter (\<lambda>e. fst e \<noteq> u) (playersArray s)))
                                  [0..<length (filter (\<lambda>e. fst e \<noteq> u) (playersArray s))]))
                 (filter (\<lambda>e. fst e \<noteq> u) (players s))"
proof -
  let ?al = "AList.delete u (players s)"
  let ?arr = "sort_key (\<lambda>e. position (snd e)) ?al"
  have arr: "?arr = filter (\<lambda>e. fst e \<noteq> u) (playersArray s)"
    by (simp add: delete_conv_filter filter_sort playersArray_def)
  have d: "distinct (map fst ?al)"
    using assms by (rule AList.distinct_delete)
  from d have darr: "distinct (map fst ?arr)" by simp
  have m: "map (\<lambda>iu. (snd iu, fst iu)) (enumerate 0 (map fst ?arr))
             = zip (map fst ?arr) [0..<length ?arr]"
    by (simp add: enumerate_eq_zip zip_map_fst_snd [symmetric] zip_commute [of "[0..<length ?arr]"]
          del: length_sort) (simp add: zip_map1 zip_map2 comp_def case_prod_beta)
  have "players (removePlayer u s)
          = map (renumbered (zip (map fst ?arr) [0..<length ?arr])) ?al"
    using renumber_fold [OF d, of "enumerate 0 (map fst ?arr)"] darr
    by (simp add: removePlayer_def Let_def fold_setPosition_players playersArray_def m)
  then show ?thesis unfolding arr by (simp only: delete_conv_filter)
qed

lemma roster_removePlayer:
  assumes "distinct (map fst (players s))"
  shows "map fst (playersArray (removePlayer u s)) = filter (\<lambda>v. v \<noteq> u) (map fst (playersArray s))"
    and "rosterInv (removePlayer u s)"
proof -
  let ?arr = "filter (\<lambda>e. fst e \<noteq> u) (playersArray s)"
  have darr: "distinct (map fst ?arr)"
    using assms by (simp add: distinct_map_filter playersArray_def)
  show keys: "map fst (playersArray (removePlayer u s)) = filter (\<lambda>v. v \<noteq> u) (map fst (playersArray s))"
    by (simp add: playersArray_removePlayer [OF assms] comp_def filter_map)
  have "length (players (removePlayer u s)) = length ?arr"
    using arg_cong [OF playersArray_removePlayer [OF assms, of u], of length] by simp
  moreover have "rosterPositions (removePlayer u s) = [0..<length ?arr]"
    using renumbered_positions [OF darr]
    by (simp add: rosterPositions_def playersArray_removePlayer [OF assms] comp_def)
  moreover have "distinct (map fst (players (removePlayer u s)))"
    using assms by (simp add: players_removePlayer [OF assms] comp_def distinct_map_filter)
  ultimately show "rosterInv (removePlayer u s)"
    by (simp add: rosterInv_def)
qed

lemma hand_renumbered [simp]: "hand (snd (renumbered m e)) = hand (snd e)"
  by (simp add: renumbered_def split: option.splits)

lemma hands_removePlayer:
  assumes "distinct (map fst (players s))" "\<forall>e \<in> set (players s). hand (snd e) = []"
  shows "\<forall>e \<in> set (players (removePlayer u s)). hand (snd e) = []"
  using assms(2) by (auto simp: players_removePlayer [OF assms(1)])

lemma map_entry_preserves:
  assumes "\<And>p. h (f p) = h p"
  shows "map (\<lambda>e. h (snd e)) (AList.map_entry k f al) = map (\<lambda>e. h (snd e)) al"
  by (induction al) (simp_all add: assms)

lemma hands_map_entry:
  assumes "\<And>p. hand (f p) = hand p" "\<forall>e \<in> set al. hand (snd e) = []"
  shows "\<forall>e \<in> set (AList.map_entry k f al). hand (snd e) = []"
proof -
  have "set (map (\<lambda>e. hand (snd e)) (AList.map_entry k f al)) = set (map (\<lambda>e. hand (snd e)) al)"
    by (simp only: map_entry_preserves [of hand f, OF assms(1)])
  with assms(2) show ?thesis by (auto simp: image_iff) 
qed

subsection \<open>Invariants of the reachable states\<close>

lemma rosterInv_players_cong: "players s' = players s \<Longrightarrow> rosterInv s' = rosterInv s"
  by (simp add: rosterInv_def rosterPositions_def playersArray_def)

lemma rosterInv_setOnline: "rosterInv s \<Longrightarrow> rosterInv (setOnline u b s)"
  unfolding setOnline_def by (rule rosterInv_map_entry) simp_all

lemma rosterInv_setStatus: "rosterInv s \<Longrightarrow> rosterInv (setStatus u st s)"
  unfolding setStatus_def by (rule rosterInv_map_entry) simp_all

lemma rosterInv_pushHand: "rosterInv s \<Longrightarrow> rosterInv (pushHand u c s)"
  unfolding pushHand_def by (rule rosterInv_map_entry) simp_all

lemma length_players_setOnline [simp]: "length (players (setOnline u b s)) = length (players s)"
  and length_players_setStatus [simp]: "length (players (setStatus u st s)) = length (players s)"
  and length_players_pushHand [simp]: "length (players (pushHand u c s)) = length (players s)"
  by (simp_all add: setOnline_def setStatus_def pushHand_def)

lemma keys_setOnline [simp]: "map fst (players (setOnline u b s)) = map fst (players s)"
  and keys_setStatus [simp]: "map fst (players (setStatus u st s)) = map fst (players s)"
  and keys_pushHand [simp]: "map fst (players (pushHand u c s)) = map fst (players s)"
  by (simp_all add: setOnline_def setStatus_def pushHand_def)

lemma dealRound_roster:
  "rosterInv s \<Longrightarrow> dealRound us s = (s', r) \<Longrightarrow>
     rosterInv s' \<and> map fst (players s') = map fst (players s)"
proof (induction us arbitrary: s)
  case Nil
  then show ?case by simp
next
  case (Cons u us)
  show ?case
  proof (cases "pop (drawPile s)")
    case None
    with Cons.prems show ?thesis by simp
  next
    case (Some cr)
    obtain c rest where cr: "cr = (c, rest)" by (cases cr)
    let ?s1 = "pushHand u (c\<lparr>orientation := Some Down\<rparr>) (s\<lparr>drawPile := rest\<rparr>)"
    from Cons.prems(1) have "rosterInv (s\<lparr>drawPile := rest\<rparr>)"
      by (simp add: rosterInv_players_cong [of "s\<lparr>drawPile := rest\<rparr>" s])
    then have r1: "rosterInv ?s1" by (rule rosterInv_pushHand)
    from Cons.prems(2) Some cr have "dealRound us ?s1 = (s', r)" by simp
    from Cons.IH [OF r1 this] show ?thesis by simp
  qed
qed

lemma dealRounds_roster:
  "rosterInv s \<Longrightarrow> dealRounds k s = (s', r) \<Longrightarrow>
     rosterInv s' \<and> map fst (players s') = map fst (players s)"
proof (induction k arbitrary: s)
  case 0
  then show ?case by simp
next
  case (Suc k)
  obtain s1 r1 where d: "dealRound (map fst (playersArray s)) s = (s1, r1)"
    by (cases "dealRound (map fst (playersArray s)) s")
  from dealRound_roster [OF Suc.prems(1) d]
  have 1: "rosterInv s1" "map fst (players s1) = map fst (players s)" by simp_all
  show ?case
  proof (cases r1)
    case None
    with Suc.prems(2) d have "dealRounds k s1 = (s', r)" by simp
    from Suc.IH [OF 1(1) this] 1(2) show ?thesis by simp
  next
    case (Some e)
    with Suc.prems(2) d have "s' = s1" by simp
    with 1 show ?thesis by simp
  qed
qed

lemma startDiscard_players: "startDiscard s = (s', r) \<Longrightarrow> players s' = players s"
  by (auto simp: startDiscard_def split: option.splits)

lemma startGame_roster:
  assumes "rosterInv s" "startGame sp env s = (s', r)"
  shows "rosterInv s' \<and> map fst (players s') = map fst (players s)"
proof (cases "length (playersArray s) \<le> 1")
  case True
  with assms show ?thesis by (simp add: startGame_def)
next
  case False
  show ?thesis
  proof (cases "chooseActive sp (randomIndex env) (playersArray (s\<lparr>phase := Ingame\<rparr>))")
    case (Inl e)
    with False assms(2) have "s' = s\<lparr>phase := Ingame\<rparr>"
      by (simp add: startGame_def Let_def)
    with assms(1) show ?thesis
      by (simp add: rosterInv_players_cong [of "s\<lparr>phase := Ingame\<rparr>" s])
  next
    case (Inr a)
    let ?s3 = "s\<lparr>phase := Ingame, activePlayerUid := Some a,
                 drawPile := fst (generateDeck env), cardMap := snd (generateDeck env)\<rparr>"
    have p3: "players ?s3 = players s" by simp
    with assms(1) have r3: "rosterInv ?s3" by (simp add: rosterInv_players_cong [OF p3])
    obtain s4 r4 where d: "dealRounds CARDS_PER_HAND ?s3 = (s4, r4)"
      by (cases "dealRounds CARDS_PER_HAND ?s3")
    from dealRounds_roster [OF r3 d] p3
    have 4: "rosterInv s4" "map fst (players s4) = map fst (players s)" by simp_all
    show ?thesis
    proof (cases r4)
      case None
      with False Inr d assms(2) have "startDiscard s4 = (s', r)"
        by (simp add: startGame_def Let_def)
      then have "players s' = players s4" by (rule startDiscard_players)
      with 4 show ?thesis by (simp add: rosterInv_players_cong [of s' s4])
    next
      case (Some e)
      with False Inr d assms(2) have "s' = s4"
        by (simp add: startGame_def Let_def)
      with 4 show ?thesis by simp
    qed
  qed
qed

lemma startGame_pregame:
  assumes "startGame sp env s = (s', r)" "phase s' = Pregame"
  shows "s' = s"
proof -
  from startGame_phase [OF assms(1)] assms(2) have "length (players s) \<le> 1"
    by (simp split: if_splits)
  with assms(1) show ?thesis by (simp add: startGame_def)
qed

lemma toggleReady_roster:
  assumes "rosterInv s" "toggleReady u env s = (s', r)"
  shows "rosterInv s' \<and> map fst (players s') = map fst (players s)"
  using assms
  by (auto simp: toggleReady_def flipStatus_conv Let_def rosterInv_setStatus
      split: if_splits option.splits property.splits dest!: startGame_roster [rotated])

lemma other_fields_setOnline [simp]:
  "discardPile (setOnline u b s) = discardPile s"
  "drawPile (setOnline u b s) = drawPile s"
  "cardMap (setOnline u b s) = cardMap s"
  "activePlayerUid (setOnline u b s) = activePlayerUid s"
  by (simp_all add: setOnline_def)

lemma other_fields_setStatus [simp]:
  "discardPile (setStatus u st s) = discardPile s"
  "drawPile (setStatus u st s) = drawPile s"
  "cardMap (setStatus u st s) = cardMap s"
  "activePlayerUid (setStatus u st s) = activePlayerUid s"
  by (simp_all add: setStatus_def)

lemma other_fields_addPlayer [simp]:
  "discardPile (addPlayer u s) = discardPile s"
  "drawPile (addPlayer u s) = drawPile s"
  "cardMap (addPlayer u s) = cardMap s"
  "activePlayerUid (addPlayer u s) = activePlayerUid s"
  by (simp_all add: addPlayer_def Let_def)

lemma other_fields_fold_setPosition [simp]:
  "discardPile (fold setPosition xs s) = discardPile s"
  "drawPile (fold setPosition xs s) = drawPile s"
  "cardMap (fold setPosition xs s) = cardMap s"
  "activePlayerUid (fold setPosition xs s) = activePlayerUid s"
  by (induction xs arbitrary: s) (simp_all add: setPosition_def)

lemma other_fields_removePlayer [simp]:
  "discardPile (removePlayer u s) = discardPile s"
  "drawPile (removePlayer u s) = drawPile s"
  "cardMap (removePlayer u s) = cardMap s"
  "activePlayerUid (removePlayer u s) = activePlayerUid s"
  by (simp_all add: removePlayer_def Let_def)

lemma fields_flipStatus [simp]:
  "phase (flipStatus u s) = phase s"
  "commands (flipStatus u s) = commands s"
  "discardPile (flipStatus u s) = discardPile s"
  "drawPile (flipStatus u s) = drawPile s"
  "cardMap (flipStatus u s) = cardMap s"
  "activePlayerUid (flipStatus u s) = activePlayerUid s"
  "map fst (players (flipStatus u s)) = map fst (players s)"
  "length (players (flipStatus u s)) = length (players s)"
  by (simp_all add: flipStatus_conv split: option.splits)

lemma rosterInv_flipStatus: "rosterInv s \<Longrightarrow> rosterInv (flipStatus u s)"
  by (simp add: flipStatus_conv rosterInv_setStatus split: option.splits)

lemma hands_setStatus:
  "\<forall>e \<in> set (players s). hand (snd e) = [] \<Longrightarrow>
     \<forall>e \<in> set (players (setStatus u st s)). hand (snd e) = []"
  using hands_map_entry [of "\<lambda>p. p\<lparr>status := st\<rparr>" "players s" u]
  by (simp add: setStatus_def)

lemma hands_setOnline:
  "\<forall>e \<in> set (players s). hand (snd e) = [] \<Longrightarrow>
     \<forall>e \<in> set (players (setOnline u b s)). hand (snd e) = []"
  using hands_map_entry [of "\<lambda>p. p\<lparr>isOnline := b\<rparr>" "players s" u]
  by (simp add: setOnline_def)

lemma hands_flipStatus:
  "\<forall>e \<in> set (players s). hand (snd e) = [] \<Longrightarrow>
     \<forall>e \<in> set (players (flipStatus u s)). hand (snd e) = []"
  by (simp add: flipStatus_conv hands_setStatus split: option.splits)

lemma toggleReady_flipStatus:
  "toggleReady u env s =
     (if phase s = Ingame then (s, Some (Error ''Game has already started''))
      else if playersGet s u = Undefined
      then (s, Some (TypeError ''Cannot read properties of undefined (reading 'status')''))
      else if list_all isReady (playersArray (flipStatus u s))
      then startGame None env (flipStatus u s)
      else (flipStatus u s, None))"
  by (cases "playersGet s u") (simp_all add: toggleReady_def Let_def)

lemma toggleReady_stateInv:
  assumes "stateInv s" "toggleReady u env s = (s', r)"
  shows "stateInv s'"
proof -
  from assms(1) have inv: "rosterInv s" "pregameInv s" "ingameInv s"
    by (simp_all add: stateInv_def)
  from toggleReady_roster [OF inv(1) assms(2)]
  have ro: "rosterInv s'" and keys: "map fst (players s') = map fst (players s)" by simp_all
  from keys have len: "length (players s') = length (players s)"
    by (metis length_map)
  let ?s1 = "flipStatus u s"
  have pre1: "pregameInv ?s1"
    using inv(2) hands_flipStatus [of s u] by (auto simp: pregameInv_def)
  consider (same) "s' = s" | (flip) "s' = ?s1"
    | (start) "phase s = Pregame" "startGame None env ?s1 = (s', r)"
    using assms(2) by (cases "phase s") (auto simp: toggleReady_flipStatus split: if_splits)
  then show ?thesis
  proof cases
    case same
    with assms(1) show ?thesis by simp
  next
    case flip
    with ro pre1 inv(3) show ?thesis by (simp add: stateInv_def ingameInv_def)
  next
    case start
    have "pregameInv s'"
    proof (cases "phase s'")
      case Pregame
      with startGame_pregame [OF start(2)] pre1 show ?thesis by simp
    next
      case Ingame
      then show ?thesis by (simp add: pregameInv_def)
    qed
    moreover have "ingameInv s'"
    proof (cases "phase s'")
      case Pregame
      then show ?thesis by (simp add: ingameInv_def)
    next
      case Ingame
      with startGame_phase [OF start(2)] start(1) have "\<not> length (players s) \<le> 1"
        by (auto split: if_splits)
      with len show ?thesis by (simp add: ingameInv_def)
    qed
    ultimately show ?thesis using ro by (simp add: stateInv_def)
  qed
qed

lemma dispatch_connect:
  "cmdId (command cc) = ''connect-to-room'' \<Longrightarrow>
     dispatch cc env s =
       (if playersGet s (player cc) = Undefined
        then (if phase s = Pregame then (addPlayer (player cc) s, None) else (s, None))
        else (setOnline (player cc) True s, None))"
  by (simp add: dispatch_def Let_def)

lemma dispatch_disconnect:
  "cmdId (command cc) = ''disconnect-from-room'' \<Longrightarrow>
     dispatch cc env s =
       (if playersGet s (player cc) \<noteq> Undefined
        then (if phase s = Ingame then (setOnline (player cc) False s, None)
              else (removePlayer (player cc) s, None))
        else (s, None))"
  by (simp add: dispatch_def Let_def)

lemma dispatch_toggle:
  "cmdId (command cc) = ''toggle-ready'' \<Longrightarrow>
     dispatch cc env s = toggleReady (player cc) env s"
  by (simp add: dispatch_def Let_def)

lemma dispatch_other:
  "cmdId (command cc) \<noteq> ''connect-to-room'' \<Longrightarrow>
   cmdId (command cc) \<noteq> ''disconnect-from-room'' \<Longrightarrow>
   cmdId (command cc) \<noteq> ''toggle-ready'' \<Longrightarrow>
     dispatch cc env s = (s, None)"
  by (simp add: dispatch_def Let_def)

lemma dispatch_stateInv:
  assumes "stateInv s" "dispatch cc env s = (s', r)"
  shows "stateInv s'"
proof -
  from assms(1) have inv: "rosterInv s" "pregameInv s" "ingameInv s"
    by (simp_all add: stateInv_def)
  from inv(1) have d: "distinct (map fst (players s))" by (simp add: rosterInv_def)
  let ?u = "player cc"
  consider (same) "s' = s"
    | (add) "phase s = Pregame" "map_of (players s) ?u = None" "s' = addPlayer ?u s"
    | (online) b where "s' = setOnline ?u b s"
    | (remove) "phase s = Pregame" "s' = removePlayer ?u s"
    | (toggle) "toggleReady ?u env s = (s', r)"
  proof -
    consider (c) "cmdId (command cc) = ''connect-to-room''"
      | (d) "cmdId (command cc) = ''disconnect-from-room''"
      | (t) "cmdId (command cc) = ''toggle-ready''"
      | (o) "cmdId (command cc) \<noteq> ''connect-to-room''"
          "cmdId (command cc) \<noteq> ''disconnect-from-room''"
          "cmdId (command cc) \<noteq> ''toggle-ready''"
      by blast
    then show ?thesis
    proof cases
      case c
      from assms(2) show ?thesis
        unfolding dispatch_connect [OF c]
        by (cases "phase s")
           (auto simp: playersGet_Undefined_iff split: if_splits intro: same add online)
    next
      case d
      from assms(2) show ?thesis
        unfolding dispatch_disconnect [OF d]
        by (cases "phase s") (auto split: if_splits intro: same remove online)
    next
      case t
      from assms(2) show ?thesis
        unfolding dispatch_toggle [OF t] by (rule toggle)
    next
      case o
      from assms(2) show ?thesis
        unfolding dispatch_other [OF o] by (auto intro: same)
    qed
  qed
  then show ?thesis
  proof cases
    case same
    with assms(1) show ?thesis by simp
  next
    case add
    from add(2) have "players (addPlayer ?u s)
        = players s @ [(?u, \<lparr>status = Waiting, position = length (players s), hand = [], isOnline = True\<rparr>)]"
      by (simp add: addPlayer_def Let_def update_absent map_of_eq_None_iff)
    with inv(2) add(1) have "pregameInv (addPlayer ?u s)"
      by (simp add: pregameInv_def)
    with rosterInv_addPlayer(1) [OF inv(1) add(2)] add(1,3) show ?thesis
      by (simp add: stateInv_def ingameInv_def)
  next
    case online
    from inv(2) have "pregameInv (setOnline ?u b s)"
      using hands_setOnline [of s ?u b] by (auto simp: pregameInv_def)
    with rosterInv_setOnline [OF inv(1)] inv(3) online show ?thesis
      by (simp add: stateInv_def ingameInv_def)
  next
    case remove
    from inv(2) remove(1) have "pregameInv (removePlayer ?u s)"
      using hands_removePlayer [OF d, of ?u] by (auto simp: pregameInv_def)
    with roster_removePlayer(2) [OF d] remove show ?thesis
      by (simp add: stateInv_def ingameInv_def)
  next
    case toggle
    with assms(1) show ?thesis by (rule toggleReady_stateInv)
  qed
qed

lemma stateInv_commands [simp]: "stateInv (s\<lparr>commands := cs\<rparr>) = stateInv s"
  by (simp add: stateInv_def rosterInv_def rosterPositions_def playersArray_def
      pregameInv_def ingameInv_def)

lemma executeCommand_stateInv:
  assumes "stateInv s"
  shows "stateInv (fst (executeCommand cc env s))"
proof -
  obtain s' r where d: "dispatch cc env s = (s', r)" by (cases "dispatch cc env s")
  from dispatch_stateInv [OF assms d] d show ?thesis
    by (cases r) (simp_all add: executeCommand_def)
qed

lemma stateInv_init: "stateInv initGameState"
  by (simp add: stateInv_def rosterInv_def rosterPositions_def playersArray_def
      pregameInv_def ingameInv_def initGameState_def)

lemma reachable_stateInv: "reachable s \<Longrightarrow> stateInv s"
  by (induction rule: reachable.induct) (simp_all add: stateInv_init executeCommand_stateInv)

lemma reachable_run: "reachable s \<Longrightarrow> reachable (run ces s)"
  by (induction ces arbitrary: s) (simp_all add: reachable_step)

subsection \<open>Too few players, and the roster under connect and disconnect\<close>

lemma startGame_too_few:
  "length (players s) < 2 \<Longrightarrow>
     startGame sp env s = (s, Some (Error ''Need at least two players to start game''))"
  by (simp add: startGame_def)

lemma reachable_few_players_pregame:
  assumes "reachable s" "length (players s) < 2"
  shows "phase s = Pregame"
proof -
  from reachable_stateInv [OF assms(1)] have "ingameInv s" by (simp add: stateInv_def)
  with assms(2) show ?thesis by (cases "phase s") (simp_all add: ingameInv_def)
qed

lemma single_player_toggle:
  assumes "length (players s) < 2" "map_of (players s) u = Some p" "status p = Waiting"
  shows "list_all isReady (playersArray (flipStatus u s))"
proof -
  from assms(1,2) have "players s = [(u, p)]"
    by (cases "players s") (auto split: if_splits)
  with assms(3) show ?thesis
    by (simp add: flipStatus_conv setStatus_def playersArray_def isReady_def)
qed

text \<open>
  C5.  In a reachable state with fewer than two seated players the phase is
  \<open>pregame\<close>; \<open>startGame\<close> raises "Need at least two players to start game" and
  leaves the state as it is; and a \<open>toggle-ready\<close> that triggers the automatic start
  (the one seated player turning ready) is rejected with that reason, the phase still
  being \<open>pregame\<close>.
\<close>

theorem startGame_needs_two_players:
  assumes "reachable s" "length (players s) < 2"
  shows "phase s = Pregame
    \<and> startGame sp env s = (s, Some (Error ''Need at least two players to start game''))
    \<and> (\<forall>(cc :: clientCommand) p. cmdId (command cc) = ''toggle-ready''
           \<and> map_of (players s) (player cc) = Some p \<and> status p = Waiting \<longrightarrow>
         (\<exists>s'. executeCommand cc env s =
                 (s', SendReject (player cc)
                        \<lparr>rejectId = ''reject'', commandId = ''toggle-ready'',
                         reason = ''Need at least two players to start game''\<rparr>)
               \<and> phase s' = Pregame))"
proof (intro conjI allI impI)
  show pre: "phase s = Pregame"
    using assms by (rule reachable_few_players_pregame)
  show "startGame sp env s = (s, Some (Error ''Need at least two players to start game''))"
    using assms(2) by (rule startGame_too_few)
  fix cc :: clientCommand and p
  assume a: "cmdId (command cc) = ''toggle-ready''
           \<and> map_of (players s) (player cc) = Some p \<and> status p = Waiting"
  let ?s1 = "flipStatus (player cc) s"
  from a have ready: "list_all isReady (playersArray ?s1)"
    using single_player_toggle [OF assms(2)] by blast
  from assms(2) have "length (players ?s1) < 2" by simp
  then have "startGame None env ?s1 = (?s1, Some (Error ''Need at least two players to start game''))"
    by (rule startGame_too_few)
  moreover from a have "playersGet s (player cc) \<noteq> Undefined"
    by (auto simp: playersGet_Own)
  ultimately have "dispatch cc env s
      = (?s1, Some (Error ''Need at least two players to start game''))"
    using a pre ready by (simp add: dispatch_toggle toggleReady_flipStatus)
  with a pre show "\<exists>s'. executeCommand cc env s =
                 (s', SendReject (player cc)
                        \<lparr>rejectId = ''reject'', commandId = ''toggle-ready'',
                         reason = ''Need at least two players to start game''\<rparr>)
               \<and> phase s' = Pregame"
    by (simp add: executeCommand_def)
qed

lemma exampleLobby_state:
  "run exampleLobby initGameState =
     \<lparr>phase = Pregame, activePlayerUid = None, actionQueue = [], cardMap = Map.empty,
      discardPile = [], drawPile = [],
      players = [(''A'', \<lparr>status = Waiting, position = 0, hand = [], isOnline = True\<rparr>)],
      commands = [cmd ''A'' ''connect-to-room'']\<rparr>"
  by (simp add: exampleLobby_def example_defs model_defs Let_def)

theorem startGame_needs_two_players_witness:
  "phase (run exampleLobby initGameState) = Pregame
   \<and> (\<exists>s'. executeCommand (cmd ''A'' ''toggle-ready'') (exampleEnv 10)
              (run exampleLobby initGameState) =
            (s', SendReject ''A''
                   \<lparr>rejectId = ''reject'', commandId = ''toggle-ready'',
                    reason = ''Need at least two players to start game''\<rparr>)
          \<and> phase s' = Pregame)"
proof -
  let ?s = "run exampleLobby initGameState :: nat gameState"
  have r: "reachable ?s"
    by (intro reachable_run reachable_init)
  have l: "length (players ?s) < 2"
    by (simp add: exampleLobby_state)
  have h: "cmdId (command (cmd ''A'' ''toggle-ready'')) = ''toggle-ready''
           \<and> map_of (players ?s) (player (cmd ''A'' ''toggle-ready''))
               = Some \<lparr>status = Waiting, position = 0, hand = [], isOnline = True\<rparr>
           \<and> status \<lparr>status = Waiting, position = 0, hand = ([] :: nat card list), isOnline = True\<rparr> = Waiting"
    by (simp add: exampleLobby_state cmd_def)
  note t = startGame_needs_two_players [OF r l, of None "exampleEnv 10"]
  from t have p: "phase ?s = Pregame" by (rule conjunct1)
  from t have "\<exists>s'. executeCommand (cmd ''A'' ''toggle-ready'') (exampleEnv 10) ?s =
                 (s', SendReject (player (cmd ''A'' ''toggle-ready''))
                        \<lparr>rejectId = ''reject'', commandId = ''toggle-ready'',
                         reason = ''Need at least two players to start game''\<rparr>)
               \<and> phase s' = Pregame"
    using h by blast
  with p show ?thesis by (simp add: cmd_def)
qed







subsection \<open>What a failing command leaves behind\<close>

lemmas step_defs = executeCommand_def dispatch_def toggleReady_def playersGet_def
  objectPrototypeKeys_def flipStatus_def startGame_def
  startDiscard_def chooseActive_def pop_def pushHand_def setStatus_def setOnline_def
  addPlayer_def removePlayer_def setPosition_def playersArray_def
  CARDS_PER_HAND_def isReady_def stubCommands_def clientStates_def

lemma exampleShortDeck_state:
  "run exampleShortDeck initGameState =
     \<lparr>phase = Pregame, activePlayerUid = None, actionQueue = [], cardMap = Map.empty,
      discardPile = [], drawPile = [],
      players = [(''A'', \<lparr>status = Ready, position = 0, hand = [], isOnline = True\<rparr>),
                 (''B'', \<lparr>status = Waiting, position = 1, hand = [], isOnline = True\<rparr>)],
      commands = map fst exampleShortDeck\<rparr>"
  by (simp add: exampleShortDeck_def example_defs model_defs Let_def)

lemma dealRound_error:
  "dealRound us s = (s', Some e) \<Longrightarrow> e = Error ''Overdraw from draw pile''"
  by (induction us arbitrary: s) (auto split: option.splits)

lemma dealRounds_error:
  "dealRounds k s = (s', Some e) \<Longrightarrow> e = Error ''Overdraw from draw pile''"
proof (induction k arbitrary: s)
  case 0
  then show ?case by simp
next
  case (Suc k)
  obtain s1 r1 where d: "dealRound (map fst (playersArray s)) s = (s1, r1)"
    by (cases "dealRound (map fst (playersArray s)) s")
  show ?case
  proof (cases r1)
    case None
    with Suc.prems d have "dealRounds k s1 = (s', Some e)" by simp
    then show ?thesis by (rule Suc.IH)
  next
    case (Some e1)
    with Suc.prems d have "e = e1" by simp
    with d Some show ?thesis by (simp add: dealRound_error)
  qed
qed

lemma startGame_error:
  assumes "startGame sp env s = (s', Some e)"
  shows "e = Error ''Need at least two players to start game'' \<and> s' = s
       \<or> e = TypeError ''Cannot read properties of undefined (reading 'uid')''
       \<or> e = Error ''Overdraw from draw pile''"
proof (cases "length (playersArray s) \<le> 1")
  case True
  with assms show ?thesis by (simp add: startGame_def)
next
  case False
  show ?thesis
  proof (cases "chooseActive sp (randomIndex env) (playersArray (s\<lparr>phase := Ingame\<rparr>))")
    case (Inl e1)
    with False assms have "e = e1" by (simp add: startGame_def Let_def)
    with Inl show ?thesis by (auto simp: chooseActive_def split: option.splits if_splits)
  next
    case (Inr a)
    let ?s3 = "s\<lparr>phase := Ingame, activePlayerUid := Some a,
                 drawPile := fst (generateDeck env), cardMap := snd (generateDeck env)\<rparr>"
    obtain s4 r4 where d: "dealRounds CARDS_PER_HAND ?s3 = (s4, r4)"
      by (cases "dealRounds CARDS_PER_HAND ?s3")
    show ?thesis
    proof (cases r4)
      case None
      with False Inr d assms have "startDiscard s4 = (s', Some e)"
        by (simp add: startGame_def Let_def)
      then show ?thesis by (auto simp: startDiscard_def split: option.splits)
    next
      case (Some e4)
      with False Inr d assms have "e = e4" by (simp add: startGame_def Let_def)
      with d Some show ?thesis by (simp add: dealRounds_error)
    qed
  qed
qed

lemma dispatch_error:
  assumes "dispatch cc env s = (s', Some e)"
  shows "cmdId (command cc) = ''toggle-ready'' \<and> toggleReady (player cc) env s = (s', Some e)"
proof -
  consider (c) "cmdId (command cc) = ''connect-to-room''"
    | (d) "cmdId (command cc) = ''disconnect-from-room''"
    | (t) "cmdId (command cc) = ''toggle-ready''"
    | (o) "cmdId (command cc) \<noteq> ''connect-to-room''"
        "cmdId (command cc) \<noteq> ''disconnect-from-room''"
        "cmdId (command cc) \<noteq> ''toggle-ready''"
    by blast
  then show ?thesis
  proof cases
    case c
    with assms show ?thesis by (simp add: dispatch_connect split: if_splits)
  next
    case d
    with assms show ?thesis by (simp add: dispatch_disconnect split: if_splits)
  next
    case t
    with assms show ?thesis by (simp add: dispatch_toggle)
  next
    case o
    with assms show ?thesis by (simp add: dispatch_other)
  qed
qed

text \<open>
  The state that a rejected command leaves.  The command is a \<open>toggle-ready\<close>, the
  rejection goes to its issuer, and the log is the one from before.  The two errors raised
  ahead of every write leave the state as it was; the error of \<open>startGame\<close> for want
  of players comes after the status assignment, which stays.
\<close>

lemma rejected_command_state:
  assumes "executeCommand cc env s = (s', SendReject u rj)"
  shows "cmdId (command cc) = ''toggle-ready'' \<and> u = player cc \<and> commands s' = commands s
    \<and> (reason rj = ''Game has already started''
         \<or> reason rj = ''Cannot read properties of undefined (reading 'status')'' \<longrightarrow> s' = s)
    \<and> (reason rj = ''Need at least two players to start game'' \<longrightarrow>
         s' = flipStatus (player cc) s)"
proof -
  obtain s1 r where d: "dispatch cc env s = (s1, r)" by (cases "dispatch cc env s")
  from assms d have "r \<noteq> None" by (cases r) (simp_all add: executeCommand_def)
  then obtain e where r: "r = Some e" by blast
  from assms d r have s1: "s1 = s'" and u: "u = player cc"
    and rj: "rj = \<lparr>rejectId = ''reject'', commandId = cmdId (command cc), reason = message e\<rparr>"
    by (simp_all add: executeCommand_def)
  from d r s1 have de: "dispatch cc env s = (s', Some e)" by simp
  from dispatch_error [OF de]
  have t: "cmdId (command cc) = ''toggle-ready''"
    and tr: "toggleReady (player cc) env s = (s', Some e)" by simp_all
  from de have c: "commands s' = commands s" by (rule dispatch_commands)
  let ?s1 = "flipStatus (player cc) s"
  have "(message e = ''Game has already started''
         \<or> message e = ''Cannot read properties of undefined (reading 'status')'' \<longrightarrow> s' = s)
    \<and> (message e = ''Need at least two players to start game'' \<longrightarrow> s' = ?s1)"
  proof (cases "phase s = Ingame")
    case True
    with tr have "s' = s" "e = Error ''Game has already started''"
      by (simp_all add: toggleReady_flipStatus)
    then show ?thesis by simp
  next
    case False
    show ?thesis
    proof (cases "playersGet s (player cc) = Undefined")
      case True
      with False tr have "s' = s"
        "e = TypeError ''Cannot read properties of undefined (reading 'status')''"
        by (simp_all add: toggleReady_flipStatus)
      then show ?thesis by simp
    next
      case known: False
      show ?thesis
      proof (cases "list_all isReady (playersArray ?s1)")
        case True
        with \<open>phase s \<noteq> Ingame\<close> known
        have "toggleReady (player cc) env s = startGame None env ?s1"
          by (simp add: toggleReady_flipStatus)
        with tr have "startGame None env ?s1 = (s', Some e)" by simp
        from startGame_error [OF this] show ?thesis
          by (elim disjE conjE) simp_all
      next
        case False
        with \<open>phase s \<noteq> Ingame\<close> known
        have "toggleReady (player cc) env s = (?s1, None)"
          by (simp add: toggleReady_flipStatus)
        with tr show ?thesis by simp
      qed
    qed
  qed
  with t u c rj show ?thesis by simp
qed

text \<open>
  C1.  A failing command is to leave the state exactly as it was.  The code does not:
  no write made before a throw is undone.  The lone seated player's \<open>toggle-ready\<close>
  is rejected for want of a second player and yet leaves that player ready; and with two
  players and a deck of seven cards the \<open>toggle-ready\<close> that is rejected for overdraw
  leaves the phase \<open>ingame\<close>.
\<close>

theorem failing_toggle_ready_keeps_writes:
  "snd (executeCommand (cmd ''A'' ''toggle-ready'') (exampleEnv 10) (run exampleLobby initGameState))
     = SendReject ''A''
         \<lparr>rejectId = ''reject'', commandId = ''toggle-ready'',
          reason = ''Need at least two players to start game''\<rparr>
   \<and> fst (executeCommand (cmd ''A'' ''toggle-ready'') (exampleEnv 10) (run exampleLobby initGameState))
       \<noteq> run exampleLobby initGameState
   \<and> snd (executeCommand (cmd ''B'' ''toggle-ready'') (exampleEnv 7)
            (run exampleShortDeck initGameState))
     = SendReject ''B''
         \<lparr>rejectId = ''reject'', commandId = ''toggle-ready'',
          reason = ''Overdraw from draw pile''\<rparr>
   \<and> phase (run exampleShortDeck initGameState) = Pregame
   \<and> phase (fst (executeCommand (cmd ''B'' ''toggle-ready'') (exampleEnv 7)
            (run exampleShortDeck initGameState))) = Ingame"
proof -
  have 1: "executeCommand (cmd ''A'' ''toggle-ready'') (exampleEnv 10) (run exampleLobby initGameState)
     = ((run exampleLobby initGameState)
          \<lparr>players := [(''A'', \<lparr>status = Ready, position = 0, hand = [], isOnline = True\<rparr>)]\<rparr>,
        SendReject ''A''
          \<lparr>rejectId = ''reject'', commandId = ''toggle-ready'',
           reason = ''Need at least two players to start game''\<rparr>)"
    by (simp add: exampleLobby_state cmd_def step_defs Let_def)
  have 2: "players ((run exampleLobby initGameState)
          \<lparr>players := [(''A'', \<lparr>status = Ready, position = 0, hand = [], isOnline = True\<rparr>)]\<rparr>)
        \<noteq> players (run exampleLobby initGameState)"
    by (simp add: exampleLobby_state)
  have 3: "(run exampleLobby initGameState)
          \<lparr>players := [(''A'', \<lparr>status = Ready, position = 0, hand = [], isOnline = True\<rparr>)]\<rparr>
        \<noteq> run exampleLobby initGameState"
  proof
    assume "(run exampleLobby initGameState)
          \<lparr>players := [(''A'', \<lparr>status = Ready, position = 0, hand = [], isOnline = True\<rparr>)]\<rparr>
        = (run exampleLobby initGameState :: nat gameState)"
    then have "players ((run exampleLobby initGameState)
          \<lparr>players := [(''A'', \<lparr>status = Ready, position = 0, hand = [], isOnline = True\<rparr>)]\<rparr>)
        = players (run exampleLobby initGameState :: nat gameState)"
      by (rule arg_cong)
    with 2 show False by contradiction
  qed
  have 4: "phase (run exampleShortDeck initGameState) = Pregame"
    by (simp add: exampleShortDeck_state)
  have 5: "snd (executeCommand (cmd ''B'' ''toggle-ready'') (exampleEnv 7)
            (run exampleShortDeck initGameState))
     = SendReject ''B''
         \<lparr>rejectId = ''reject'', commandId = ''toggle-ready'',
          reason = ''Overdraw from draw pile''\<rparr>"
    by (simp add: exampleShortDeck_state exampleEnv_def exampleDeck_def cmd_def step_defs Let_def numeral_eq_Suc)
  have 6: "phase (fst (executeCommand (cmd ''B'' ''toggle-ready'') (exampleEnv 7)
            (run exampleShortDeck initGameState))) = Ingame"
    by (simp add: exampleShortDeck_state exampleEnv_def exampleDeck_def cmd_def step_defs Let_def numeral_eq_Suc)
  from 1 3 4 5 6 show ?thesis by simp
qed

subsection \<open>Every failure becomes a rejection\<close>


lemma clientStates_commands [simp]: "clientStates (s\<lparr>commands := cs\<rparr>) = clientStates s"
  by (simp add: clientStates_def)

text \<open>
  A uid that names an inherited member is treated as known without being seated: its
  \<open>connect-to-room\<close> seats nobody and succeeds.
\<close>

lemma inherited_uid_connect:
  "executeCommand (cmd ''toString'' ''connect-to-room'') (exampleEnv 10) initGameState =
     (initGameState\<lparr>commands := [cmd ''toString'' ''connect-to-room'']\<rparr>, BroadcastUpdate [])"
  by (simp add: cmd_def model_defs)



subsection \<open>The phase\<close>

lemma run_append: "run (ces @ ces2) s = run ces2 (run ces s)"
  by (induction ces arbitrary: s) simp_all













subsection \<open>Dealing conserves the cards\<close>

lemma handCardIds_map_entry:
  "u \<in> fst ` set al \<Longrightarrow>
     mset (handCardIds (AList.map_entry u (\<lambda>p. p\<lparr>hand := hand p @ [c]\<rparr>) al))
       = mset (handCardIds al) + {#cid c#}"
  by (induction al) (auto simp: handCardIds_def)

lemma pop_Some:
  "pop d = Some (c, rest) \<Longrightarrow> d = rest @ [c]"
  by (cases d) (auto simp: pop_def split: if_splits)

lemma pop_None: "pop d = None \<longleftrightarrow> d = []"
  by (cases d) (simp_all add: pop_def)

lemma dealRound_conserves:
  "set us \<subseteq> fst ` set (players s) \<Longrightarrow> dealRound us s = (s', r) \<Longrightarrow>
     mset (allCardIds s') = mset (allCardIds s)"
proof (induction us arbitrary: s)
  case Nil
  then show ?case by simp
next
  case (Cons u us)
  show ?case
  proof (cases "pop (drawPile s)")
    case None
    with Cons.prems show ?thesis by simp
  next
    case (Some cr)
    obtain c rest where cr: "cr = (c, rest)" by (cases cr)
    let ?c = "c\<lparr>orientation := Some Down\<rparr>"
    let ?s1 = "pushHand u ?c (s\<lparr>drawPile := rest\<rparr>)"
    from Some cr have d: "drawPile s = rest @ [c]" by (simp add: pop_Some)
    from Cons.prems(1) have u: "u \<in> fst ` set (players s)" by simp
    have keys: "fst ` set (players ?s1) = fst ` set (players s)"
      by (simp add: pushHand_def AList.dom_map_entry)
    have "mset (allCardIds ?s1) = mset (allCardIds s)"
      using handCardIds_map_entry [OF u, of ?c] d
      by (simp add: allCardIds_def pushHand_def)
    moreover from Cons.prems(2) Some cr have "dealRound us ?s1 = (s', r)" by simp
    moreover from Cons.prems(1) keys have "set us \<subseteq> fst ` set (players ?s1)" by simp
    ultimately show ?thesis using Cons.IH [of ?s1] by simp
  qed
qed

lemma dealRounds_conserves:
  "dealRounds k s = (s', r) \<Longrightarrow> mset (allCardIds s') = mset (allCardIds s)"
proof (induction k arbitrary: s)
  case 0
  then show ?case by simp
next
  case (Suc k)
  obtain s1 r1 where d: "dealRound (map fst (playersArray s)) s = (s1, r1)"
    by (cases "dealRound (map fst (playersArray s)) s")
  have "set (map fst (playersArray s)) \<subseteq> fst ` set (players s)" by simp
  from dealRound_conserves [OF this d] have 1: "mset (allCardIds s1) = mset (allCardIds s)" .
  show ?case
  proof (cases r1)
    case None
    with Suc.prems d have "dealRounds k s1 = (s', r)" by simp
    from Suc.IH [OF this] 1 show ?thesis by simp
  next
    case (Some e)
    with Suc.prems d have "s' = s1" by simp
    with 1 show ?thesis by simp
  qed
qed

lemma startDiscard_conserves:
  "startDiscard s = (s', r) \<Longrightarrow> mset (allCardIds s') = mset (allCardIds s)"
  by (cases "pop (drawPile s)")
     (auto simp: startDiscard_def allCardIds_def dest!: pop_Some)

lemma startGame_mset_ids:
  assumes "startGame sp env s = (s', None)"
  shows "mset (allCardIds s')
           = mset (map cid (fst (generateDeck env))) + mset (map cid (discardPile s))
             + mset (handCardIds (players s))"
proof -
  from assms have len: "\<not> length (playersArray s) \<le> 1"
    by (auto simp: startGame_def split: if_splits)
  with assms obtain a where
    a: "chooseActive sp (randomIndex env) (playersArray (s\<lparr>phase := Ingame\<rparr>)) = Inr a"
    by (cases "chooseActive sp (randomIndex env) (playersArray (s\<lparr>phase := Ingame\<rparr>))")
       (simp_all add: startGame_def Let_def)
  let ?s3 = "s\<lparr>phase := Ingame, activePlayerUid := Some a,
               drawPile := fst (generateDeck env), cardMap := snd (generateDeck env)\<rparr>"
  obtain s4 r4 where d: "dealRounds CARDS_PER_HAND ?s3 = (s4, r4)"
    by (cases "dealRounds CARDS_PER_HAND ?s3")
  with assms len a have r4: "r4 = None" and sd: "startDiscard s4 = (s', None)"
    by (cases r4; simp add: startGame_def Let_def)+
  from dealRounds_conserves [OF d] startDiscard_conserves [OF sd]
  have "mset (allCardIds s') = mset (allCardIds ?s3)" by simp
  then show ?thesis by (simp add: allCardIds_def)
qed

subsection \<open>After the start, every card is in one place\<close>

lemma allCardIds_commands [simp]: "allCardIds (s\<lparr>commands := cs\<rparr>) = allCardIds s"
  by (simp add: allCardIds_def)

lemma handCardIds_empty:
  "\<forall>e \<in> set al. hand (snd e) = [] \<Longrightarrow> handCardIds al = []"
  by (simp add: handCardIds_def)

text \<open>
  A command that succeeds and takes the phase from \<open>pregame\<close> to \<open>ingame\<close> is a
  \<open>toggle-ready\<close> whose call of \<open>startGame\<close> has returned normally.
\<close>

lemma start_event:
  assumes "phase s = Pregame" "executeCommand cc env s = (s', BroadcastUpdate m)"
    and "phase s' = Ingame"
  shows "\<exists>s1. startGame None env (flipStatus (player cc) s) = (s1, None)
              \<and> s' = s1\<lparr>commands := commands s1 @ [cc]\<rparr>"
proof -
  obtain s1 r where d: "dispatch cc env s = (s1, r)" by (cases "dispatch cc env s")
  with assms(2) have r: "r = None" and s': "s' = s1\<lparr>commands := commands s1 @ [cc]\<rparr>"
    by (cases r; simp add: executeCommand_def)+
  from s' assms(3) have p1: "phase s1 = Ingame" by simp
  consider (c) "cmdId (command cc) = ''connect-to-room''"
    | (d) "cmdId (command cc) = ''disconnect-from-room''"
    | (t) "cmdId (command cc) = ''toggle-ready''"
    | (o) "cmdId (command cc) \<noteq> ''connect-to-room''"
        "cmdId (command cc) \<noteq> ''disconnect-from-room''"
        "cmdId (command cc) \<noteq> ''toggle-ready''"
    by blast
  then have "startGame None env (flipStatus (player cc) s) = (s1, None)"
  proof cases
    case c
    with d assms(1) p1 show ?thesis by (auto simp: dispatch_connect split: if_splits)
  next
    case d': d
    with d assms(1) p1 show ?thesis by (auto simp: dispatch_disconnect split: if_splits)
  next
    case t
    with d r have tr: "toggleReady (player cc) env s = (s1, None)" by (simp add: dispatch_toggle)
    show ?thesis
    proof (cases "list_all isReady (playersArray (flipStatus (player cc) s))")
      case True
      with tr assms(1) show ?thesis
        by (simp add: toggleReady_flipStatus split: if_splits)
    next
      case False
      with tr assms(1) have "s1 = flipStatus (player cc) s"
        by (simp add: toggleReady_flipStatus split: if_splits)
      with assms(1) p1 show ?thesis by simp
    qed
  next
    case o
    with d assms(1) p1 show ?thesis by (simp add: dispatch_other)
  qed
  with s' show ?thesis by blast
qed

lemma reachable_pregame_flipStatus:
  assumes "reachable s" "phase s = Pregame"
  shows "distinct (map fst (players (flipStatus u s)))"
    and "\<forall>e \<in> set (players (flipStatus u s)). hand (snd e) = []"
    and "discardPile (flipStatus u s) = []"
proof -
  from reachable_stateInv [OF assms(1)] have "rosterInv s" "pregameInv s"
    by (simp_all add: stateInv_def)
  with assms(2) have d: "distinct (map fst (players s))"
    and h: "\<forall>e \<in> set (players s). hand (snd e) = []" and p: "discardPile s = []"
    by (simp_all add: rosterInv_def pregameInv_def)
  from d show "distinct (map fst (players (flipStatus u s)))" by simp
  from h show "\<forall>e \<in> set (players (flipStatus u s)). hand (snd e) = []"
    by (rule hands_flipStatus)
  from p show "discardPile (flipStatus u s) = []" by simp
qed

text \<open>
  C3.  When a command takes a reachable state from \<open>pregame\<close> to \<open>ingame\<close> and
  succeeds, that is when \<open>startGame\<close> has completed, the identifiers found in the draw
  pile, the discard pile and the hands are, counted with multiplicity, those of the
  generated deck; if the identifiers of the deck are pairwise distinct, no identifier
  occurs twice across these locations, and each player has one entry in \<open>players\<close>.
\<close>

theorem startGame_conserves_card_ids:
  assumes "reachable s" "phase s = Pregame"
    and "executeCommand cc env s = (s', BroadcastUpdate m)" "phase s' = Ingame"
    and "distinct (map cid (fst (generateDeck env)))"
  shows "mset (allCardIds s') = mset (map cid (fst (generateDeck env)))
    \<and> distinct (allCardIds s') \<and> distinct (map fst (players s'))"
proof -
  let ?s0 = "flipStatus (player cc) s"
  from start_event [OF assms(2,3,4)] obtain s1
    where sg: "startGame None env ?s0 = (s1, None)"
      and s': "s' = s1\<lparr>commands := commands s1 @ [cc]\<rparr>" by blast
  note pre = reachable_pregame_flipStatus [OF assms(1,2), of "player cc"]
  from startGame_mset_ids [OF sg] pre(2,3)
  have "mset (allCardIds s1) = mset (map cid (fst (generateDeck env)))"
    by (simp add: handCardIds_empty)
  with s' have m: "mset (allCardIds s') = mset (map cid (fst (generateDeck env)))" by simp
  then have "distinct (allCardIds s') = distinct (map cid (fst (generateDeck env)))"
    by (rule mset_eq_imp_distinct_iff)
  with assms(5) have d: "distinct (allCardIds s')" by simp
  from reachable_stateInv [OF reachable_step [OF assms(1), of cc env]] assms(3)
  have "distinct (map fst (players s'))" by (simp add: stateInv_def rosterInv_def)
  with m d show ?thesis by simp
qed

lemma exampleBeforeStart_state:
  "run exampleBeforeStart initGameState =
     \<lparr>phase = Pregame, activePlayerUid = None, actionQueue = [], cardMap = Map.empty,
      discardPile = [], drawPile = [],
      players = [(''A'', \<lparr>status = Ready, position = 0, hand = [], isOnline = True\<rparr>),
                 (''B'', \<lparr>status = Waiting, position = 1, hand = [], isOnline = True\<rparr>)],
      commands = map fst exampleBeforeStart\<rparr>"
  by (simp add: exampleBeforeStart_def example_defs model_defs Let_def)

lemma exampleGame_split: "exampleGame 10 = exampleBeforeStart @ [(cmd ''B'' ''toggle-ready'', exampleEnv 10)]"
  by (simp add: exampleBeforeStart_def exampleGame_def)

lemma exampleStart_broadcast:
  "\<exists>m. executeCommand (cmd ''B'' ''toggle-ready'') (exampleEnv 10)
          (run exampleBeforeStart initGameState)
        = (run (exampleGame 10) initGameState, BroadcastUpdate m)"
proof -
  have "snd (dispatch (cmd ''B'' ''toggle-ready'') (exampleEnv 10)
          (run exampleBeforeStart initGameState)) = None"
    by (simp add: exampleBeforeStart_state exampleEnv_def exampleDeck_def cmd_def
        dispatch_def toggleReady_def playersGet_def objectPrototypeKeys_def flipStatus_def
        startGame_def startDiscard_def chooseActive_def pop_def
        pushHand_def setStatus_def playersArray_def CARDS_PER_HAND_def isReady_def
        Let_def numeral_eq_Suc)
  then have "\<exists>m. snd (executeCommand (cmd ''B'' ''toggle-ready'') (exampleEnv 10)
          (run exampleBeforeStart initGameState)) = BroadcastUpdate m"
    by (cases "dispatch (cmd ''B'' ''toggle-ready'') (exampleEnv 10)
          (run exampleBeforeStart initGameState)") (simp add: executeCommand_def)
  moreover have "fst (executeCommand (cmd ''B'' ''toggle-ready'') (exampleEnv 10)
          (run exampleBeforeStart initGameState)) = run (exampleGame 10) initGameState"
    by (simp add: exampleGame_split run_append)
  ultimately show ?thesis by (metis prod.collapse)
qed

lemma exampleDeck_distinct: "distinct (map cid (fst (generateDeck (exampleEnv 10))))"
  by (simp add: exampleEnv_def exampleDeck_def numeral_eq_Suc)

theorem startGame_conserves_card_ids_witness:
  "mset (allCardIds (run (exampleGame 10) initGameState)) = mset (map cid (exampleDeck 10))
   \<and> distinct (allCardIds (run (exampleGame 10) initGameState))"
proof -
  from exampleStart_broadcast obtain m where
    e: "executeCommand (cmd ''B'' ''toggle-ready'') (exampleEnv 10)
          (run exampleBeforeStart initGameState)
        = (run (exampleGame 10) initGameState, BroadcastUpdate m)" ..
  have r: "reachable (run exampleBeforeStart initGameState :: nat gameState)"
    by (intro reachable_run reachable_init)
  have p: "phase (run exampleBeforeStart initGameState) = Pregame"
    by (simp add: exampleBeforeStart_state)
  have i: "phase (run (exampleGame 10) initGameState) = Ingame"
    by (simp add: exampleGame_state)
  from startGame_conserves_card_ids [OF r p e i exampleDeck_distinct]
  show ?thesis by (simp add: exampleEnv_def)
qed

subsection \<open>The deal, card by card\<close>

lemma handOf_pushHand:
  "handOf (pushHand u c s) v
     = (if v = u \<and> u \<in> fst ` set (players s) then handOf s u @ [c] else handOf s v)"
proof (cases "map_of (players s) u")
  case None
  then have "u \<notin> fst ` set (players s)" by (simp add: map_of_eq_None_iff)
  with None show ?thesis
    by (simp add: handOf_def pushHand_def AList.map_of_map_entry)
next
  case (Some p)
  then have "u \<in> fst ` set (players s)"
    using map_of_eq_None_iff [of "players s" u] by simp
  with Some show ?thesis
    by (simp add: handOf_def pushHand_def AList.map_of_map_entry)
qed

lemma handOf_drawPile [simp]: "handOf (s\<lparr>drawPile := d\<rparr>) = handOf s"
  by (rule ext) (simp add: handOf_def)

lemma handOf_entry:
  "distinct (map fst (players s)) \<Longrightarrow> e \<in> set (players s) \<Longrightarrow> handOf s (fst e) = hand (snd e)"
  by (cases e) (simp add: handOf_def)

lemma playersArray_pushHand:
  "distinct (map fst (players s)) \<Longrightarrow>
     map fst (playersArray (pushHand u c s)) = map fst (playersArray s)"
  unfolding pushHand_def by (subst playersArray_map_entry) (simp_all add: comp_def)

lemma playersArray_drawPile [simp]: "playersArray (s\<lparr>drawPile := d\<rparr>) = playersArray s"
  by (simp add: playersArray_def)

lemma rev_butlast_nth:
  "j < length d - 1 \<Longrightarrow> rev (butlast d) ! j = rev d ! Suc j"
  by (cases d rule: rev_cases) simp_all

lemma dealRound_deal:
  assumes "distinct (map fst (players s))" "distinct us" "set us \<subseteq> fst ` set (players s)"
    and "length us \<le> length (drawPile s)"
  shows "\<exists>s'. dealRound us s = (s', None)
    \<and> drawPile s' = take (length (drawPile s) - length us) (drawPile s)
    \<and> discardPile s' = discardPile s
    \<and> map fst (players s') = map fst (players s)
    \<and> map fst (playersArray s') = map fst (playersArray s)
    \<and> (\<forall>j < length us. handOf s' (us ! j) = handOf s (us ! j) @ [faceDown (rev (drawPile s) ! j)])
    \<and> (\<forall>v. v \<notin> set us \<longrightarrow> handOf s' v = handOf s v)"
  using assms
proof (induction us arbitrary: s)
  case Nil
  then show ?case by simp
next
  case (Cons u us)
  let ?d = "drawPile s"
  from Cons.prems(4) have ne: "?d \<noteq> []" by auto
  then have pop: "pop ?d = Some (last ?d, butlast ?d)"
    by (cases ?d) (simp_all add: pop_def)
  let ?s1 = "pushHand u (faceDown (last ?d)) (s\<lparr>drawPile := butlast ?d\<rparr>)"
  have step: "dealRound (u # us) s = dealRound us ?s1"
    by (simp add: pop faceDown_def)
  have d1: "drawPile ?s1 = butlast ?d" by simp
  have k1: "map fst (players ?s1) = map fst (players s)" by simp
  have a1: "map fst (playersArray ?s1) = map fst (playersArray s)"
    using Cons.prems(1) by (simp add: playersArray_pushHand)
  from Cons.prems(3) have uin: "u \<in> fst ` set (players s)" by simp
  have "\<exists>s'. dealRound us ?s1 = (s', None)
    \<and> drawPile s' = take (length (drawPile ?s1) - length us) (drawPile ?s1)
    \<and> discardPile s' = discardPile ?s1
    \<and> map fst (players s') = map fst (players ?s1)
    \<and> map fst (playersArray s') = map fst (playersArray ?s1)
    \<and> (\<forall>j < length us. handOf s' (us ! j) = handOf ?s1 (us ! j) @ [faceDown (rev (drawPile ?s1) ! j)])
    \<and> (\<forall>v. v \<notin> set us \<longrightarrow> handOf s' v = handOf ?s1 v)"
  proof (rule Cons.IH)
    show "distinct (map fst (players ?s1))" using Cons.prems(1) by simp
    show "distinct us" using Cons.prems(2) by simp
    show "set us \<subseteq> fst ` set (players ?s1)"
      using Cons.prems(3) k1 by (metis list.set_map set_subset_Cons subset_trans)
    show "length us \<le> length (drawPile ?s1)" using Cons.prems(4) by simp
  qed
  then obtain s' where r: "dealRound us ?s1 = (s', None)"
    and dp: "drawPile s' = take (length (butlast ?d) - length us) (butlast ?d)"
    and di: "discardPile s' = discardPile s"
    and ks: "map fst (players s') = map fst (players s)"
    and ar: "map fst (playersArray s') = map fst (playersArray s)"
    and hs: "\<forall>j < length us. handOf s' (us ! j) = handOf ?s1 (us ! j) @ [faceDown (rev (butlast ?d) ! j)]"
    and ho: "\<forall>v. v \<notin> set us \<longrightarrow> handOf s' v = handOf ?s1 v"
    unfolding d1 k1 a1 by auto
  have "drawPile s' = take (length ?d - length (u # us)) ?d"
    unfolding dp by (simp add: butlast_conv_take min_def)
  moreover have "handOf s' ((u # us) ! j) = handOf s ((u # us) ! j) @ [faceDown (rev ?d ! j)]"
    if j: "j < length (u # us)" for j
  proof (cases j)
    case 0
    from Cons.prems(2) have "u \<notin> set us" by simp
    with ho have "handOf s' u = handOf ?s1 u" by simp
    also have "\<dots> = handOf s u @ [faceDown (last ?d)]"
      using uin by (simp add: handOf_pushHand)
    finally show ?thesis using 0 ne by (simp add: rev_nth last_conv_nth)
  next
    case (Suc j')
    with j have j': "j' < length us" by simp
    with Cons.prems(2) have neq: "us ! j' \<noteq> u" by auto
    from j' Cons.prems(4) have "j' < length ?d - 1" by simp
    then have "rev (butlast ?d) ! j' = rev ?d ! Suc j'" by (rule rev_butlast_nth)
    with hs j' neq show ?thesis
      by (simp add: Suc handOf_pushHand)
  qed
  moreover have "handOf s' v = handOf s v" if "v \<notin> set (u # us)" for v
    using that ho by (simp add: handOf_pushHand)
  ultimately show ?case
    using step r di ks ar by auto
qed

lemma dealRound_None_length:
  "dealRound us s = (s', None) \<Longrightarrow> length us \<le> length (drawPile s)"
proof (induction us arbitrary: s)
  case Nil
  then show ?case by simp
next
  case (Cons u us)
  show ?case
  proof (cases "pop (drawPile s)")
    case None
    with Cons.prems show ?thesis by simp
  next
    case (Some cr)
    obtain c rest where cr: "cr = (c, rest)" by (cases cr)
    with Some have d: "drawPile s = rest @ [c]" by (simp add: pop_Some)
    from Cons.prems Some cr
    have "dealRound us (pushHand u (c\<lparr>orientation := Some Down\<rparr>) (s\<lparr>drawPile := rest\<rparr>)) = (s', None)"
      by simp
    from Cons.IH [OF this] d show ?thesis by simp
  qed
qed

lemma dealRound_roster_hands:
  assumes "distinct (map fst (players s))" "length (players s) \<le> length (drawPile s)"
  shows "\<exists>s'. dealRound (map fst (playersArray s)) s = (s', None)
    \<and> drawPile s' = take (length (drawPile s) - length (players s)) (drawPile s)
    \<and> discardPile s' = discardPile s
    \<and> distinct (map fst (players s')) \<and> length (players s') = length (players s)
    \<and> map fst (playersArray s') = map fst (playersArray s)
    \<and> (\<forall>j < length (players s).
          hand (snd (playersArray s' ! j))
            = hand (snd (playersArray s ! j)) @ [faceDown (rev (drawPile s) ! j)])"
proof -
  let ?us = "map fst (playersArray s)"
  have 1: "distinct ?us" using assms(1) by (simp add: playersArray_def)
  have 2: "set ?us \<subseteq> fst ` set (players s)" by simp
  have 3: "length ?us \<le> length (drawPile s)" using assms(2) by simp
  from dealRound_deal [OF assms(1) 1 2 3] obtain s' where
    r: "dealRound ?us s = (s', None)"
    and dp: "drawPile s' = take (length (drawPile s) - length (players s)) (drawPile s)"
    and di: "discardPile s' = discardPile s"
    and ks: "map fst (players s') = map fst (players s)"
    and ar: "map fst (playersArray s') = ?us"
    and hs: "\<forall>j < length ?us. handOf s' (?us ! j) = handOf s (?us ! j) @ [faceDown (rev (drawPile s) ! j)]"
    by auto
  from ks assms(1) have d': "distinct (map fst (players s'))" by simp
  from ks have l': "length (players s') = length (players s)" by (metis length_map)
  have "hand (snd (playersArray s' ! j))
          = hand (snd (playersArray s ! j)) @ [faceDown (rev (drawPile s) ! j)]"
    if j: "j < length (players s)" for j
  proof -
    from j have e: "playersArray s ! j \<in> set (players s)"
      by (metis length_playersArray nth_mem set_playersArray)
    from j l' have e': "playersArray s' ! j \<in> set (players s')"
      by (metis length_playersArray nth_mem set_playersArray)
    from j have u: "?us ! j = fst (playersArray s ! j)" by simp
    from j l' ar have u': "?us ! j = fst (playersArray s' ! j)"
      by (metis length_playersArray nth_map)
    from hs j have "handOf s' (?us ! j) = handOf s (?us ! j) @ [faceDown (rev (drawPile s) ! j)]"
      by simp
    then show ?thesis
      unfolding u' handOf_entry [OF d' e']
      unfolding u'[symmetric] u handOf_entry [OF assms(1) e] .
  qed
  with r dp di d' l' ar show ?thesis by blast
qed

lemma rev_take_nth:
  assumes "p \<le> length d"
  shows "rev (take (length d - p) d) ! i = rev d ! (p + i)"
proof -
  from assms have "rev (take (length d - p) d) = drop p (rev d)"
    by (simp add: rev_take)
  with assms show ?thesis by simp
qed

lemma dealRounds_deal:
  assumes "distinct (map fst (players s))" "k * length (players s) \<le> length (drawPile s)"
  shows "\<exists>s'. dealRounds k s = (s', None)
    \<and> drawPile s' = take (length (drawPile s) - k * length (players s)) (drawPile s)
    \<and> discardPile s' = discardPile s
    \<and> distinct (map fst (players s')) \<and> length (players s') = length (players s)
    \<and> map fst (playersArray s') = map fst (playersArray s)
    \<and> (\<forall>j < length (players s).
          hand (snd (playersArray s' ! j))
            = hand (snd (playersArray s ! j))
              @ map (\<lambda>r. faceDown (rev (drawPile s) ! (r * length (players s) + j))) [0..<k])"
  using assms
proof (induction k arbitrary: s)
  case 0
  then show ?case by simp
next
  case (Suc k)
  let ?P = "length (players s)" and ?d = "drawPile s"
  from Suc.prems(2) have PN: "?P \<le> length ?d" by simp
  from dealRound_roster_hands [OF Suc.prems(1) PN] obtain s1 where
    r1: "dealRound (map fst (playersArray s)) s = (s1, None)"
    and dp1: "drawPile s1 = take (length ?d - ?P) ?d"
    and di1: "discardPile s1 = discardPile s"
    and d1: "distinct (map fst (players s1))" and l1: "length (players s1) = ?P"
    and ar1: "map fst (playersArray s1) = map fst (playersArray s)"
    and h1: "\<forall>j < ?P. hand (snd (playersArray s1 ! j))
                = hand (snd (playersArray s ! j)) @ [faceDown (rev ?d ! j)]"
    by blast
  from Suc.prems(2) have "k * length (players s1) \<le> length (drawPile s1)"
    unfolding l1 dp1 by simp
  from Suc.IH [OF d1 this] obtain s' where
    r: "dealRounds k s1 = (s', None)"
    and dp: "drawPile s' = take (length (drawPile s1) - k * ?P) (drawPile s1)"
    and di: "discardPile s' = discardPile s1"
    and d': "distinct (map fst (players s'))" and l': "length (players s') = ?P"
    and ar: "map fst (playersArray s') = map fst (playersArray s1)"
    and h: "\<forall>j < ?P. hand (snd (playersArray s' ! j))
                = hand (snd (playersArray s1 ! j))
                  @ map (\<lambda>r. faceDown (rev (drawPile s1) ! (r * ?P + j))) [0..<k]"
    unfolding l1 by blast
  have step: "dealRounds (Suc k) s = (s', None)" using r1 r by simp
  have "length (take (length ?d - ?P) ?d) = length ?d - ?P" by simp
  then have "drawPile s' = take (length ?d - ?P - k * ?P) (take (length ?d - ?P) ?d)"
    unfolding dp dp1 by (simp only:)
  also have "\<dots> = take (length ?d - ?P - k * ?P) ?d"
    by (simp only: take_take min.absorb1 [OF diff_le_self])
  also have "length ?d - ?P - k * ?P = length ?d - Suc k * ?P" by simp
  finally have dp': "drawPile s' = take (length ?d - Suc k * ?P) ?d" .
  have "hand (snd (playersArray s' ! j))
          = hand (snd (playersArray s ! j))
            @ map (\<lambda>r. faceDown (rev ?d ! (r * ?P + j))) [0..<Suc k]"
    if j: "j < ?P" for j
  proof -
    have "map (\<lambda>r. faceDown (rev (drawPile s1) ! (r * ?P + j))) [0..<k]
            = map (\<lambda>r. faceDown (rev ?d ! (Suc r * ?P + j))) [0..<k]"
      unfolding dp1 by (simp add: rev_take_nth [OF PN] add.assoc)
    with h h1 j have "hand (snd (playersArray s' ! j))
        = hand (snd (playersArray s ! j))
          @ faceDown (rev ?d ! (0 * ?P + j))
            # map (\<lambda>r. faceDown (rev ?d ! (Suc r * ?P + j))) [0..<k]"
      by simp
    then show ?thesis by (simp only: map_upt_Suc)
  qed
  with step dp' di di1 d' l' ar ar1 show ?case by auto
qed

lemma dealRounds_None_length:
  assumes "distinct (map fst (players s))" "dealRounds k s = (s', None)"
  shows "k * length (players s) \<le> length (drawPile s)"
  using assms
proof (induction k arbitrary: s)
  case 0
  then show ?case by simp
next
  case (Suc k)
  obtain s1 r1 where d: "dealRound (map fst (playersArray s)) s = (s1, r1)"
    by (cases "dealRound (map fst (playersArray s)) s")
  with Suc.prems(2) have r1: "r1 = None" and r: "dealRounds k s1 = (s', None)"
    by (cases r1; simp)+
  from dealRound_None_length [of "map fst (playersArray s)" s s1] d r1
  have PN: "length (players s) \<le> length (drawPile s)" by simp
  from dealRound_roster_hands [OF Suc.prems(1) PN] d r1
  have "drawPile s1 = take (length (drawPile s) - length (players s)) (drawPile s)"
    and d1: "distinct (map fst (players s1))" and "length (players s1) = length (players s)"
    by auto
  with Suc.IH [OF d1 r] PN show ?case by simp
qed

lemma startDiscard_None:
  assumes "startDiscard s = (s', None)"
  shows "drawPile s \<noteq> [] \<and> drawPile s' = butlast (drawPile s)
    \<and> discardPile s' = discardPile s @ [last (drawPile s)] \<and> players s' = players s"
  using assms by (cases "drawPile s") (auto simp: startDiscard_def pop_def split: if_splits)

lemma startGame_success:
  assumes "distinct (map fst (players s))" "startGame sp env s = (s', None)"
  shows "2 \<le> length (players s)
    \<and> 4 * length (players s) + 1 \<le> length (fst (generateDeck env))
    \<and> map fst (playersArray s') = map fst (playersArray s)
    \<and> (\<forall>j < length (players s).
          hand (snd (playersArray s' ! j))
            = hand (snd (playersArray s ! j))
              @ map (\<lambda>r. faceDown (rev (fst (generateDeck env)) ! (r * length (players s) + j)))
                  [0..<4])
    \<and> discardPile s' = discardPile s @ [rev (fst (generateDeck env)) ! (4 * length (players s))]
    \<and> drawPile s'
        = take (length (fst (generateDeck env)) - 4 * length (players s) - 1)
            (fst (generateDeck env))"
proof -
  let ?P = "length (players s)" and ?deck = "fst (generateDeck env)"
  from assms(2) have len: "\<not> length (playersArray s) \<le> 1"
    by (auto simp: startGame_def split: if_splits)
  then have P2: "2 \<le> ?P" by simp
  from len assms(2) obtain a where
    a: "chooseActive sp (randomIndex env) (playersArray (s\<lparr>phase := Ingame\<rparr>)) = Inr a"
    by (cases "chooseActive sp (randomIndex env) (playersArray (s\<lparr>phase := Ingame\<rparr>))")
       (simp_all add: startGame_def Let_def)
  let ?s3 = "s\<lparr>phase := Ingame, activePlayerUid := Some a,
               drawPile := ?deck, cardMap := snd (generateDeck env)\<rparr>"
  obtain s4 r4 where d: "dealRounds CARDS_PER_HAND ?s3 = (s4, r4)"
    by (cases "dealRounds CARDS_PER_HAND ?s3")
  with assms(2) len a have r4: "r4 = None" and sd: "startDiscard s4 = (s', None)"
    by (cases r4; simp add: startGame_def Let_def)+
  have d3: "distinct (map fst (players ?s3))" using assms(1) by simp
  have pa3: "playersArray ?s3 = playersArray s" by (simp add: playersArray_def)
  from d r4 have d4: "dealRounds 4 ?s3 = (s4, None)" by (simp add: CARDS_PER_HAND_def)
  from dealRounds_None_length [OF d3 d4] have N4: "4 * ?P \<le> length ?deck" by simp
  then have "4 * length (players ?s3) \<le> length (drawPile ?s3)" by simp
  from dealRounds_deal [OF d3 this] d4
  have dp4: "drawPile s4 = take (length ?deck - 4 * ?P) ?deck"
    and di4: "discardPile s4 = discardPile s"
    and ar4: "map fst (playersArray s4) = map fst (playersArray s)"
    and h4: "\<forall>j < ?P. hand (snd (playersArray s4 ! j))
               = hand (snd (playersArray s ! j))
                 @ map (\<lambda>r. faceDown (rev ?deck ! (r * ?P + j))) [0..<4]"
    by (simp_all add: pa3)
  from startDiscard_None [OF sd]
  have ne: "drawPile s4 \<noteq> []" and dp: "drawPile s' = butlast (drawPile s4)"
    and di: "discardPile s' = discardPile s4 @ [last (drawPile s4)]"
    and pl: "players s' = players s4" by simp_all
  from ne dp4 N4 have N: "4 * ?P + 1 \<le> length ?deck" by (cases "length ?deck - 4 * ?P") auto
  have "last (drawPile s4) = drawPile s4 ! (length (drawPile s4) - 1)"
    using ne by (rule last_conv_nth)
  also have "\<dots> = ?deck ! (length ?deck - 4 * ?P - 1)"
    using N by (simp add: dp4)
  also have "\<dots> = rev ?deck ! (4 * ?P)"
    using N by (simp add: rev_nth)
  finally have last: "last (drawPile s4) = rev ?deck ! (4 * ?P)" .
  have draw: "drawPile s' = take (length ?deck - 4 * ?P - 1) ?deck"
    unfolding dp dp4 by (simp add: butlast_take)
  from pl have pa: "playersArray s' = playersArray s4" by (simp add: playersArray_def)
  from P2 N ar4 h4 di di4 last draw pa show ?thesis by simp
qed

lemma startGame_succeeds:
  assumes "distinct (map fst (players s))" "2 \<le> length (players s)"
    and "randomIndex env < length (players s)"
    and "4 * length (players s) + 1 \<le> length (fst (generateDeck env))"
  shows "\<exists>s'. startGame None env s = (s', None)"
proof -
  let ?P = "length (players s)" and ?deck = "fst (generateDeck env)"
  let ?a = "fst (playersArray s ! randomIndex env)"
  have pa: "playersArray (s\<lparr>phase := Ingame\<rparr>) = playersArray s" by (simp add: playersArray_def)
  from assms(3) have a: "chooseActive None (randomIndex env) (playersArray (s\<lparr>phase := Ingame\<rparr>)) = Inr ?a"
    by (simp add: chooseActive_def pa)
  let ?s3 = "s\<lparr>phase := Ingame, activePlayerUid := Some ?a,
               drawPile := ?deck, cardMap := snd (generateDeck env)\<rparr>"
  have d3: "distinct (map fst (players ?s3))" using assms(1) by simp
  from assms(4) have "4 * length (players ?s3) \<le> length (drawPile ?s3)" by simp
  from dealRounds_deal [OF d3 this] obtain s4 where
    d4: "dealRounds 4 ?s3 = (s4, None)"
    and dp4: "drawPile s4 = take (length ?deck - 4 * ?P) ?deck" by auto
  from dp4 assms(4) have "drawPile s4 \<noteq> []" by auto
  then obtain s' where "startDiscard s4 = (s', None)"
    by (cases "drawPile s4") (simp_all add: startDiscard_def pop_def)
  with assms(2) a d4 show ?thesis
    by (simp add: startGame_def Let_def CARDS_PER_HAND_def)
qed

lemma playersArray_flipStatus:
  assumes "distinct (map fst (players s))"
  shows "map fst (playersArray (flipStatus u s)) = map fst (playersArray s)"
    and "map (\<lambda>e. hand (snd e)) (playersArray (flipStatus u s))
           = map (\<lambda>e. hand (snd e)) (playersArray s)"
proof -
  have *: "map fst (playersArray (setStatus u st s)) = map fst (playersArray s)
      \<and> map (\<lambda>e. hand (snd e)) (playersArray (setStatus u st s))
           = map (\<lambda>e. hand (snd e)) (playersArray s)" for st
    unfolding setStatus_def
    by (subst playersArray_map_entry [OF assms], simp, subst playersArray_map_entry [OF assms])
       (simp_all add: comp_def updEntry_def)
  show "map fst (playersArray (flipStatus u s)) = map fst (playersArray s)"
    and "map (\<lambda>e. hand (snd e)) (playersArray (flipStatus u s))
           = map (\<lambda>e. hand (snd e)) (playersArray s)"
    using * by (simp_all add: flipStatus_conv split: option.splits)
qed

text \<open>
  C6.  When a command takes a reachable state from \<open>pregame\<close> to \<open>ingame\<close> and
  succeeds, that is when \<open>startGame\<close> has completed, with \<open>P\<close> seated players and a
  generated deck of \<open>N\<close> cards: \<open>P \<ge> 2\<close> and \<open>N \<ge> 4P + 1\<close>; the roster order is
  unchanged; the player at roster index \<open>j\<close> holds exactly four cards, all face down,
  the \<open>k\<close>-th of them being the card drawn at step \<open>k P + j\<close> (cards are drawn from
  the end of the deck, so every player has a \<open>k\<close>-th card before anyone has the next);
  the discard pile holds the one card drawn at step \<open>4P\<close>; and the draw pile holds the
  remaining \<open>N - 4P - 1\<close> cards.
\<close>

theorem startGame_deals_round_robin:
  assumes "reachable s" "phase s = Pregame"
    and "executeCommand cc env s = (s', BroadcastUpdate m)" "phase s' = Ingame"
  shows "2 \<le> length (players s)
    \<and> 4 * length (players s) + 1 \<le> length (fst (generateDeck env))
    \<and> map fst (playersArray s') = map fst (playersArray s)
    \<and> (\<forall>j < length (players s).
          hand (snd (playersArray s' ! j))
            = map (\<lambda>k. faceDown (rev (fst (generateDeck env)) ! (k * length (players s) + j)))
                [0..<4]
          \<and> length (hand (snd (playersArray s' ! j))) = 4
          \<and> (\<forall>c \<in> set (hand (snd (playersArray s' ! j))). orientation c = Some Down))
    \<and> discardPile s' = [rev (fst (generateDeck env)) ! (4 * length (players s))]
    \<and> drawPile s'
        = take (length (fst (generateDeck env)) - 4 * length (players s) - 1)
            (fst (generateDeck env))
    \<and> length (drawPile s') = length (fst (generateDeck env)) - 4 * length (players s) - 1"
proof -
  let ?s0 = "flipStatus (player cc) s"
  let ?P = "length (players s)" and ?deck = "fst (generateDeck env)"
  from start_event [OF assms(2,3,4)] obtain s1
    where sg: "startGame None env ?s0 = (s1, None)"
      and s': "s' = s1\<lparr>commands := commands s1 @ [cc]\<rparr>" by blast
  note pre = reachable_pregame_flipStatus [OF assms(1,2), of "player cc"]
  from reachable_stateInv [OF assms(1)] have d: "distinct (map fst (players s))"
    by (simp add: stateInv_def rosterInv_def)
  have empty: "hand (snd (playersArray ?s0 ! j)) = []" if "j < ?P" for j
  proof -
    from that have "playersArray ?s0 ! j \<in> set (players ?s0)"
      by (metis fields_flipStatus(8) length_playersArray nth_mem set_playersArray)
    with pre(2) show ?thesis by blast
  qed
  from pre(3) have ds: "discardPile s = []" by simp
  from startGame_success [OF pre(1) sg]
  have P2: "2 \<le> ?P" and N: "4 * ?P + 1 \<le> length ?deck"
    and ar: "map fst (playersArray s1) = map fst (playersArray s)"
    and h: "\<forall>j < ?P. hand (snd (playersArray s1 ! j))
              = map (\<lambda>k. faceDown (rev ?deck ! (k * ?P + j))) [0..<4]"
    and di: "discardPile s1 = [rev ?deck ! (4 * ?P)]"
    and dp: "drawPile s1 = take (length ?deck - 4 * ?P - 1) ?deck"
    using empty ds by (simp_all add: playersArray_flipStatus(1) [OF d])
  from s' have pa: "playersArray s' = playersArray s1" by (simp add: playersArray_def)
  have hands: "hand (snd (playersArray s' ! j))
            = map (\<lambda>k. faceDown (rev ?deck ! (k * ?P + j))) [0..<4]
          \<and> length (hand (snd (playersArray s' ! j))) = 4
          \<and> (\<forall>c \<in> set (hand (snd (playersArray s' ! j))). orientation c = Some Down)"
    if "j < ?P" for j
    using h that unfolding pa by (auto simp: faceDown_def)
  from s' di have di': "discardPile s' = [rev ?deck ! (4 * ?P)]" by simp
  from s' dp have dp': "drawPile s' = take (length ?deck - 4 * ?P - 1) ?deck" by simp
  then have "length (drawPile s') = length ?deck - 4 * ?P - 1" by simp
  with P2 N ar hands di' dp' show ?thesis unfolding pa by blast
qed

theorem startGame_deals_round_robin_witness:
  "hand (snd (playersArray (run (exampleGame 10) initGameState) ! 1))
     = map (\<lambda>k. faceDown (rev (exampleDeck 10) ! (k * 2 + 1))) [0..<4]
   \<and> discardPile (run (exampleGame 10) initGameState) = [rev (exampleDeck 10) ! 8]
   \<and> length (drawPile (run (exampleGame 10) initGameState)) = 1"
proof -
  from exampleStart_broadcast obtain m where
    e: "executeCommand (cmd ''B'' ''toggle-ready'') (exampleEnv 10)
          (run exampleBeforeStart initGameState)
        = (run (exampleGame 10) initGameState, BroadcastUpdate m)" ..
  have r: "reachable (run exampleBeforeStart initGameState :: nat gameState)"
    by (intro reachable_run reachable_init)
  have p: "phase (run exampleBeforeStart initGameState) = Pregame"
    by (simp add: exampleBeforeStart_state)
  have i: "phase (run (exampleGame 10) initGameState) = Ingame"
    by (simp add: exampleGame_state)
  have l: "length (players (run exampleBeforeStart initGameState)) = 2"
    by (simp add: exampleBeforeStart_state)
  have n: "fst (generateDeck (exampleEnv 10)) = exampleDeck 10"
    by (simp add: exampleEnv_def)
  have n': "length (exampleDeck 10) = 10"
    by (simp add: exampleDeck_def)
  note t = startGame_deals_round_robin [OF r p e i, unfolded l n n']
  from t have "hand (snd (playersArray (run (exampleGame 10) initGameState) ! 1))
     = map (\<lambda>k. faceDown (rev (exampleDeck 10) ! (k * 2 + 1))) [0..<4]"
    by simp
  moreover from t have "discardPile (run (exampleGame 10) initGameState) = [rev (exampleDeck 10) ! 8]"
    by simp
  moreover from t have "length (drawPile (run (exampleGame 10) initGameState)) = 1"
    by (simp add: n')
  ultimately show ?thesis by simp
qed

end
